theory Spec2Isabelle
  imports Complex_Main "HOL-Library.Log_Nat"
begin

section \<open>Material loading and merging (material.py)\<close>

text \<open>
  The development follows \<^verbatim>\<open>src/material.py\<close>: the parser of the material text
  format (\<^verbatim>\<open>load_mtl\<close>) and the merger of several materials into one atlas
  (\<^verbatim>\<open>merge_materials\<close>). Python ints are \<open>int\<close>, list lengths and texture
  resolutions \<open>nat\<close>. Floats and tensor entries are reals, and every arithmetic
  operation on floats gives the exact result rounded to the float format: the
  rounding is the parameter \<open>rnd\<close> of the functions that compute with floats (the
  identity for exact arithmetic, round to nearest for IEEE 754 doubles). Every
  exception the code can raise is a value of \<open>py_error\<close>.
\<close>

subsection \<open>Errors and Python indexing\<close>

text \<open>An \<^verbatim>\<open>assert\<close> that fails raises AssertionError with the message of the
  assertion (the empty string when it has none).\<close>

datatype py_error = AssertionError string | KeyError | IndexError | AttributeError
  | ValueError | TypeError | RuntimeError

text \<open>\<^verbatim>\<open>xs[i]\<close> on a Python list: a negative index counts from the end, an index
  out of range raises IndexError.\<close>

definition py_get :: "'a list \<Rightarrow> int \<Rightarrow> py_error + 'a" where
  "py_get xs i =
     (if 0 \<le> i \<and> i < int (length xs) then Inr (xs ! nat i)
      else if i < 0 \<and> - int (length xs) \<le> i then Inr (xs ! nat (int (length xs) + i))
      else Inl IndexError)"

subsection \<open>Rewriting the texture coordinates (lines 185 to 198)\<close>

text \<open>
  \<^verbatim>\<open>new_tverts\<close> is a dict of dicts: original UV index, then material index, to
  the index of the entry created for the pair. \<^verbatim>\<open>new_tverts_data\<close> is the list of
  new UV pairs, appended to in creation order.
\<close>

type_synonym tverts = "int \<rightharpoonup> (int \<rightharpoonup> nat)"
type_synonym uv_state = "tverts \<times> real list list"

text \<open>One pass of the body of the loop over \<^verbatim>\<open>vi\<close>, for the corner \<open>vi\<close> of
  the face row \<open>row\<close> whose material index is \<open>matIdx\<close>. The row is updated in
  place by the source; here the updated row is returned. Line 195 converts the
  material index, a Python int, to a float and makes one float addition and two
  float divisions.\<close>

definition rewrite_corner ::
  "(real \<Rightarrow> real) \<Rightarrow> real list \<Rightarrow> real list list \<Rightarrow> int \<Rightarrow> uv_state \<times> int list \<Rightarrow> nat
     \<Rightarrow> py_error + (uv_state \<times> int list)" where
  "rewrite_corner rnd s_coeff texcoords matIdx sr vi =
     (case sr of ((new_tverts, new_tverts_data), row) \<Rightarrow>
      (case py_get row (int vi) of
         Inl e \<Rightarrow> Inl e
       | Inr ti \<Rightarrow>
          (let inner = (case new_tverts ti of None \<Rightarrow> Map.empty | Some d \<Rightarrow> d)
           in case inner matIdx of
                Some idx \<Rightarrow>
                  Inr ((new_tverts(ti \<mapsto> inner), new_tverts_data), row[vi := int idx])
              | None \<Rightarrow>
                 (case py_get texcoords ti of
                    Inl e \<Rightarrow> Inl e
                  | Inr uv \<Rightarrow>
                     (case py_get uv 0 of
                        Inl e \<Rightarrow> Inl e
                      | Inr u \<Rightarrow>
                         (case py_get uv 1 of
                            Inl e \<Rightarrow> Inl e
                          | Inr v \<Rightarrow>
                              Inr ((new_tverts(ti \<mapsto> inner(matIdx \<mapsto> length new_tverts_data)),
                                    new_tverts_data
                                      @ [[rnd (rnd (rnd (of_int matIdx) + u) / (s_coeff ! 1)),
                                          rnd (v / (s_coeff ! 0))]]),
                                   row[vi := int (length new_tverts_data)])))))))"

text \<open>The loop \<^verbatim>\<open>for vi in range(3)\<close>.\<close>

fun rewrite_corners ::
  "(real \<Rightarrow> real) \<Rightarrow> real list \<Rightarrow> real list list \<Rightarrow> int \<Rightarrow> uv_state \<times> int list \<Rightarrow> nat list
     \<Rightarrow> py_error + (uv_state \<times> int list)" where
  "rewrite_corners rnd s_coeff texcoords matIdx sr [] = Inr sr"
| "rewrite_corners rnd s_coeff texcoords matIdx sr (vi # vis) =
     (case rewrite_corner rnd s_coeff texcoords matIdx sr vi of
        Inl e \<Rightarrow> Inl e
      | Inr sr' \<Rightarrow> rewrite_corners rnd s_coeff texcoords matIdx sr' vis)"

text \<open>The loop \<^verbatim>\<open>for fi in range(len(tfaces))\<close>, as a recursion over the rows
  of \<^verbatim>\<open>tfaces\<close> and the entries of \<^verbatim>\<open>mfaces\<close> from index \<open>fi\<close> on:
  \<^verbatim>\<open>mfaces[fi]\<close> raises IndexError when \<^verbatim>\<open>mfaces\<close> is the shorter list.\<close>

fun rewrite_faces ::
  "(real \<Rightarrow> real) \<Rightarrow> real list \<Rightarrow> real list list \<Rightarrow> uv_state \<Rightarrow> int list list \<Rightarrow> int list
     \<Rightarrow> py_error + (uv_state \<times> int list list)" where
  "rewrite_faces rnd s_coeff texcoords st [] mfaces = Inr (st, [])"
| "rewrite_faces rnd s_coeff texcoords st (row # rows) [] = Inl IndexError"
| "rewrite_faces rnd s_coeff texcoords st (row # rows) (matIdx # mfaces) =
     (case rewrite_corners rnd s_coeff texcoords matIdx (st, row) [0, 1, 2] of
        Inl e \<Rightarrow> Inl e
      | Inr (st', row') \<Rightarrow>
         (case rewrite_faces rnd s_coeff texcoords st' rows mfaces of
            Inl e \<Rightarrow> Inl e
          | Inr (st'', rows') \<Rightarrow> Inr (st'', row' # rows')))"

definition rewrite_texcoords ::
  "(real \<Rightarrow> real) \<Rightarrow> real list \<Rightarrow> real list list \<Rightarrow> int list list \<Rightarrow> int list
     \<Rightarrow> py_error + (real list list \<times> int list list)" where
  "rewrite_texcoords rnd s_coeff texcoords tfaces mfaces =
     (case rewrite_faces rnd s_coeff texcoords (Map.empty, []) tfaces mfaces of
        Inl e \<Rightarrow> Inl e
      | Inr ((new_tverts, new_tverts_data), tfaces') \<Rightarrow> Inr (new_tverts_data, tfaces'))"

subsection \<open>Texture buffers and material records\<close>

text \<open>
  A tensor in NHWC layout with a batch of one is a grid of pixels: a list of rows,
  each row a list of pixels, each pixel the list of its channel values.
\<close>

type_synonym pixel = "real list"
type_synonym image = "pixel list list"

definition height :: "image \<Rightarrow> nat" where
  "height img = length img"

definition width :: "image \<Rightarrow> nat" where
  "width img = (case img of [] \<Rightarrow> 0 | row # _ \<Rightarrow> length row)"

definition channels :: "image \<Rightarrow> nat" where
  "channels img = (case img of [] \<Rightarrow> 0 | row # _ \<Rightarrow> (case row of [] \<Rightarrow> 0 | p # _ \<Rightarrow> length p))"

text \<open>
  Modelled from the spec: the class \<^verbatim>\<open>texture.Texture2D\<close> is not part of the
  source file. A texture buffer is an image and its further resolution levels;
  \<^verbatim>\<open>Texture2D(x)\<close> on a tensor makes the buffer with the one level \<open>x\<close>,
  \<^verbatim>\<open>getRes()\<close> is the (height, width) of the image, \<^verbatim>\<open>getMips()\<close> lists all
  levels.
\<close>

datatype texture = Texture2D (data: image) (lower_mips: "image list")

definition getRes :: "texture \<Rightarrow> nat \<times> nat" where
  "getRes t = (height (data t), width (data t))"

definition getMips :: "texture \<Rightarrow> image list" where
  "getMips t = data t # lower_mips t"

text \<open>A material is a Python dict from key to a string, a vector of floats or a
  texture.\<close>

datatype mtl_value = Str string | Vec "real list" | Tex texture

type_synonym material = "string \<rightharpoonup> mtl_value"

subsection \<open>Normalising normal-map presence (lines 140 to 151)\<close>

definition flat_normal :: texture where
  "flat_normal = Texture2D [[[0, 0, 1]]] []"

text \<open>The loop \<^verbatim>\<open>for m in materials\<close> of the patch. It writes into the dicts of
  the caller's list, so the list is returned as the loop leaves it, together with
  the exception, if any, that stopped it: \<^verbatim>\<open>m['kd'].data.device\<close> raises KeyError
  without the key and AttributeError on a string.\<close>

fun inject_normals :: "material list \<Rightarrow> material list \<times> py_error option" where
  "inject_normals [] = ([], None)"
| "inject_normals (m # ms) =
     (if m ''normal'' = None then
        (case m ''kd'' of
           None \<Rightarrow> (m # ms, Some KeyError)
         | Some (Str s) \<Rightarrow> (m # ms, Some AttributeError)
         | Some _ \<Rightarrow>
            (case inject_normals ms of
               (ms', e) \<Rightarrow> (m(''normal'' \<mapsto> Tex flat_normal) # ms', e)))
      else (case inject_normals ms of (ms', e) \<Rightarrow> (m # ms', e)))"

subsection \<open>The checks (lines 153 to 155)\<close>

definition bsdf_message :: string where
  "bsdf_message = ''All materials must have the same BSDF (uber shader)''"

definition normal_message :: string where
  "normal_message = ''All materials must have either normal map enabled or disabled''"

text \<open>The truth value of \<^verbatim>\<open>a == b\<close> in an assertion. Strings compare by content and
  values of different kinds are unequal. Two tensors compare element by element,
  and the result has a truth value only when it has one element: otherwise, and
  when the shapes do not fit, RuntimeError. Two texture objects compare by
  identity, here by content: the model has no object identity.\<close>

definition py_eq :: "mtl_value \<Rightarrow> mtl_value \<Rightarrow> py_error + bool" where
  "py_eq a b =
     (case a of
        Vec xs \<Rightarrow>
          (case b of
             Vec ys \<Rightarrow> if length xs = 1 \<and> length ys = 1 then Inr (xs = ys) else Inl RuntimeError
           | _ \<Rightarrow> Inr False)
      | _ \<Rightarrow> Inr (a = b))"

text \<open>The loop of the two assertions, \<open>first\<close> being \<^verbatim>\<open>materials[0]\<close>.\<close>

fun check_materials :: "material \<Rightarrow> material list \<Rightarrow> py_error option" where
  "check_materials first [] = None"
| "check_materials first (mat # mats) =
     (case mat ''bsdf'' of
        None \<Rightarrow> Some KeyError
      | Some b \<Rightarrow>
         (case first ''bsdf'' of
            None \<Rightarrow> Some KeyError
          | Some b0 \<Rightarrow>
             (case py_eq b b0 of
                Inl e \<Rightarrow> Some e
              | Inr eq \<Rightarrow>
                  if \<not> eq then Some (AssertionError bsdf_message)
                  else if (mat ''normal'' \<noteq> None) \<noteq> (first ''normal'' \<noteq> None)
                    then Some (AssertionError normal_message)
                  else check_materials first mats)))"

subsection \<open>Atlas resolution (lines 162 to 172)\<close>

definition textures :: "string list" where
  "textures = [''kd'', ''ks'', ''normal'']"

definition tex_res :: "material \<Rightarrow> string \<Rightarrow> py_error + nat \<times> nat" where
  "tex_res mat tex =
     (case mat tex of
        None \<Rightarrow> Inr (1, 1)
      | Some (Tex t) \<Rightarrow> Inr (getRes t)
      | Some _ \<Rightarrow> Inl AttributeError)"

definition np_maximum :: "nat \<times> nat \<Rightarrow> nat \<times> nat \<Rightarrow> nat \<times> nat" where
  "np_maximum a b = (max (fst a) (fst b), max (snd a) (snd b))"

text \<open>The two nested loops over materials and texture names, as one loop over the
  pairs in the order the source visits them.\<close>

fun max_res_loop ::
  "(nat \<times> nat) option \<Rightarrow> (material \<times> string) list \<Rightarrow> py_error + (nat \<times> nat) option" where
  "max_res_loop max_res [] = Inr max_res"
| "max_res_loop max_res ((mat, tex) # rest) =
     (case tex_res mat tex of
        Inl e \<Rightarrow> Inl e
      | Inr r \<Rightarrow>
          max_res_loop (Some (case max_res of None \<Rightarrow> r | Some m \<Rightarrow> np_maximum m r)) rest)"

text \<open>\<^verbatim>\<open>ceil(log2(n))\<close> for \<open>n \<ge> 1\<close>, by halving.\<close>

fun ceil_log2 :: "nat \<Rightarrow> nat" where
  "ceil_log2 n = (if n \<le> 1 then 0 else Suc (ceil_log2 ((n + 1) div 2)))"

declare ceil_log2.simps [simp del]

text \<open>\<^verbatim>\<open>2 ** np.ceil(np.log2(n)).astype(np.int64)\<close>: the cast binds before the
  power, so the exponent is an integer. For \<open>n = 0\<close> numpy gives \<open>-inf\<close> for the
  logarithm, the cast of it is negative, and the integer power raises ValueError.
  The power is taken of the whole array, so line 172 raises when either component
  is 0.\<close>

definition pot_ceil :: "nat \<Rightarrow> py_error + nat" where
  "pot_ceil n = (if n = 0 then Inl ValueError else Inr (2 ^ ceil_log2 n))"

definition compute_full_res :: "nat \<times> nat \<Rightarrow> nat \<Rightarrow> py_error + nat \<times> nat" where
  "compute_full_res max_res m =
     (case pot_ceil (fst max_res * 1) of
        Inl e \<Rightarrow> Inl e
      | Inr h \<Rightarrow>
         (case pot_ceil (snd max_res * m) of
            Inl e \<Rightarrow> Inl e
          | Inr w \<Rightarrow> Inr (h, w)))"

subsection \<open>Combining the textures (lines 128 to 131 and 174 to 180)\<close>

text \<open>\<^verbatim>\<open>torch.nn.functional.pad\<close> in replicate mode, to the right and to the
  bottom. The amounts are not negative when the input is no larger than
  \<open>full_res\<close>, which is the case the source builds.\<close>

definition upscale_replicate :: "image \<Rightarrow> nat \<times> nat \<Rightarrow> image" where
  "upscale_replicate x full_res =
     (let wide = map (\<lambda>row. row @ replicate (snd full_res - length row) (last row)) x
      in wide @ replicate (fst full_res - length x) (last wide))"

text \<open>\<^verbatim>\<open>torch.cat(..., dim=2)\<close>: the images side by side. It raises RuntimeError
  unless all images agree in height and in the number of channels.\<close>

definition torch_cat :: "image list \<Rightarrow> py_error + image" where
  "torch_cat imgs =
     (case imgs of
        [] \<Rightarrow> Inl RuntimeError
      | i0 # rest \<Rightarrow>
          if list_all (\<lambda>i. height i = height i0 \<and> channels i = channels i0) rest
          then Inr (map (\<lambda>y. concat (map (\<lambda>i. i ! y) imgs)) [0..<height i0])
          else Inl RuntimeError)"

definition get_texture :: "material \<Rightarrow> string \<Rightarrow> py_error + texture" where
  "get_texture mat tex =
     (case mat tex of
        None \<Rightarrow> Inl KeyError
      | Some (Tex t) \<Rightarrow> Inr t
      | Some _ \<Rightarrow> Inl AttributeError)"

text \<open>The generator \<^verbatim>\<open>scale_img_nhwc(mat[tex].data, max_res) for mat in materials\<close>.
  Modelled from the spec: the resampling function \<^verbatim>\<open>util.scale_img_nhwc\<close> is not
  part of the source file; as \<^verbatim>\<open>resample(buffer, targetResolution)\<close> of the
  texture buffer interface it returns a buffer, and it is the parameter
  \<open>scale_img\<close>.\<close>

fun scaled_cells ::
  "(image \<Rightarrow> nat \<times> nat \<Rightarrow> image) \<Rightarrow> nat \<times> nat \<Rightarrow> string \<Rightarrow> material list
     \<Rightarrow> py_error + image list" where
  "scaled_cells scale_img max_res tex [] = Inr []"
| "scaled_cells scale_img max_res tex (mat # mats) =
     (case get_texture mat tex of
        Inl e \<Rightarrow> Inl e
      | Inr t \<Rightarrow>
         (case scaled_cells scale_img max_res tex mats of
            Inl e \<Rightarrow> Inl e
          | Inr cells \<Rightarrow> Inr (scale_img (data t) max_res # cells)))"

text \<open>The loop \<^verbatim>\<open>for tex in textures\<close> that fills \<^verbatim>\<open>uber_material\<close>.\<close>

fun combine_textures ::
  "(image \<Rightarrow> nat \<times> nat \<Rightarrow> image) \<Rightarrow> material list \<Rightarrow> nat \<times> nat \<Rightarrow> nat \<times> nat
     \<Rightarrow> material \<Rightarrow> string list \<Rightarrow> py_error + material" where
  "combine_textures scale_img materials max_res full_res uber_material [] = Inr uber_material"
| "combine_textures scale_img materials max_res full_res uber_material (tex # texs) =
     (if hd materials tex \<noteq> None then
        (case scaled_cells scale_img max_res tex materials of
           Inl e \<Rightarrow> Inl e
         | Inr cells \<Rightarrow>
            (case torch_cat cells of
               Inl e \<Rightarrow> Inl e
             | Inr tex_data \<Rightarrow>
                 combine_textures scale_img materials max_res full_res
                   (uber_material(tex \<mapsto> Tex (Texture2D (upscale_replicate tex_data full_res) [])))
                   texs))
      else combine_textures scale_img materials max_res full_res uber_material texs)"

subsection \<open>The merge (lines 134 to 200)\<close>

text \<open>Everything after the patch. \<^verbatim>\<open>materials\<close> is not empty here. The two
  entries of \<^verbatim>\<open>s_coeff\<close> are float divisions of integers, each converted to a
  float first.\<close>

definition merge_checked ::
  "(real \<Rightarrow> real) \<Rightarrow> (image \<Rightarrow> nat \<times> nat \<Rightarrow> image) \<Rightarrow> material list \<Rightarrow> real list list \<Rightarrow> int list list
     \<Rightarrow> int list \<Rightarrow> py_error + material \<times> real list list \<times> int list list" where
  "merge_checked rnd scale_img materials texcoords tfaces mfaces =
     (case check_materials (hd materials) materials of
        Some e \<Rightarrow> Inl e
      | None \<Rightarrow>
         (case hd materials ''bsdf'' of
            None \<Rightarrow> Inl KeyError
          | Some bsdf \<Rightarrow>
             (let uber_material = [''name'' \<mapsto> Str ''uber_material'', ''bsdf'' \<mapsto> bsdf]
              in case max_res_loop None (List.product materials textures) of
                   Inl e \<Rightarrow> Inl e
                 | Inr None \<Rightarrow> Inl TypeError
                 | Inr (Some max_res) \<Rightarrow>
                    (case compute_full_res max_res (length materials) of
                       Inl e \<Rightarrow> Inl e
                     | Inr full_res \<Rightarrow>
                        (case combine_textures scale_img materials max_res full_res
                                uber_material textures of
                           Inl e \<Rightarrow> Inl e
                         | Inr uber \<Rightarrow>
                            (let s_coeff = [rnd (rnd (real (fst full_res)) / rnd (real (fst max_res))),
                                            rnd (rnd (real (snd full_res)) / rnd (real (snd max_res)))]
                             in case rewrite_texcoords rnd s_coeff texcoords tfaces mfaces of
                                  Inl e \<Rightarrow> Inl e
                                | Inr (new_tverts_data, tfaces') \<Rightarrow>
                                    Inr (uber, new_tverts_data, tfaces')))))))"

text \<open>
  \<^verbatim>\<open>merge_materials\<close>. The first component of the result is the caller's list of
  material dicts as the call leaves it (the patch writes into them), also when the
  call raises; the second is the exception or the returned triple.
\<close>

definition merge_materials ::
  "(real \<Rightarrow> real) \<Rightarrow> (image \<Rightarrow> nat \<times> nat \<Rightarrow> image) \<Rightarrow> material list \<Rightarrow> real list list \<Rightarrow> int list list
     \<Rightarrow> int list
     \<Rightarrow> material list \<times> (py_error + material \<times> real list list \<times> int list list)" where
  "merge_materials rnd scale_img materials texcoords tfaces mfaces =
     (if \<not> length materials > 0 then (materials, Inl (AssertionError []))
      else
        (let has_norm = map (\<lambda>m. m ''normal'' \<noteq> None) materials
         in if list_ex id has_norm \<and> \<not> list_all id has_norm then
              (case inject_normals materials of
                 (materials', Some e) \<Rightarrow> (materials', Inl e)
               | (materials', None) \<Rightarrow>
                   (materials', merge_checked rnd scale_img materials' texcoords tfaces mfaces))
            else (materials, merge_checked rnd scale_img materials texcoords tfaces mfaces)))"

subsection \<open>Parsing the material file (lines 31 to 43)\<close>

text \<open>Strings are lists of bytes; the model covers ASCII text. \<^verbatim>\<open>str.strip()\<close> removes
  the white space of both ends: tab, newline, vertical tab, form feed, carriage
  return, the four separators 28 to 31 and the space. \<^verbatim>\<open>str.lower()\<close> maps the
  letters A to Z (codes 65 to 90) to a to z, that is, adds 32 by setting bit 5.\<close>

definition is_space :: "char \<Rightarrow> bool" where
  "is_space c = (let n = (of_char c :: nat) in (9 \<le> n \<and> n \<le> 13) \<or> (28 \<le> n \<and> n \<le> 32))"

definition strip :: "string \<Rightarrow> string" where
  "strip s = rev (dropWhile is_space (rev (dropWhile is_space s)))"

definition lower_char :: "char \<Rightarrow> char" where
  "lower_char c =
     (let n = (of_char c :: nat)
      in if 65 \<le> n \<and> n \<le> 90
         then Char (digit0 c) (digit1 c) (digit2 c) (digit3 c) (digit4 c) True (digit6 c) (digit7 c)
         else c)"

definition lower :: "string \<Rightarrow> string" where
  "lower s = map lower_char s"

text \<open>The separators of the pattern \<^verbatim>\<open>' +|\t+|\n+'\<close>: a run of spaces, or a run
  of tabs, or a run of newlines. Two different separators in a row are two matches,
  with an empty token between them.\<close>

definition is_sep :: "char \<Rightarrow> bool" where
  "is_sep c = (let n = (of_char c :: nat) in n = 32 \<or> n = 9 \<or> n = 10)"

fun re_split :: "string \<Rightarrow> string list" where
  "re_split [] = [[]]"
| "re_split (c # cs) =
     (if is_sep c then
        (case cs of
           [] \<Rightarrow> [] # re_split cs
         | d # ds \<Rightarrow> if d = c then re_split cs else [] # re_split cs)
      else (case re_split cs of [] \<Rightarrow> [[c]] | t # ts \<Rightarrow> (c # t) # ts))"

text \<open>\<^verbatim>\<open>k in prefix\<close> on strings: \<open>k\<close> occurs in \<open>s\<close> as a contiguous piece.\<close>

fun is_substring :: "string \<Rightarrow> string \<Rightarrow> bool" where
  "is_substring k [] = (k = [])"
| "is_substring k (c # cs) = (take (length k) (c # cs) = k \<or> is_substring k cs)"

definition string_keys :: "string list" where
  "string_keys = [''bsdf'', ''map_kd'', ''map_ks'', ''bump'', ''map_ns'', ''ns'', ''ka'', ''refl'']"

text \<open>The body of the loop over the lines. \<^verbatim>\<open>material\<close> is the dict appended
  last, which is the last element of \<^verbatim>\<open>materials\<close>; writing a key into it changes
  that element. \<^verbatim>\<open>float\<close> is the parameter \<open>py_float\<close>, with \<open>None\<close> where Python
  raises ValueError.\<close>

definition parse_line ::
  "(string \<Rightarrow> real option) \<Rightarrow> material list \<Rightarrow> string \<Rightarrow> py_error + material list" where
  "parse_line py_float materials line =
     (let split_line = re_split (strip line);
          prefix = lower (hd split_line);
          data = tl split_line
      in if is_substring ''newmtl'' prefix then
           (case data of
              [] \<Rightarrow> Inl IndexError
            | d # _ \<Rightarrow> Inr (materials @ [[''name'' \<mapsto> Str d]]))
         else if materials \<noteq> [] then
           (if list_ex (\<lambda>k. is_substring k prefix) string_keys then
              (case data of
                 [] \<Rightarrow> Inl IndexError
               | d # _ \<Rightarrow> Inr (butlast materials @ [(last materials)(prefix \<mapsto> Str d)]))
            else
              (case those (map py_float data) of
                 None \<Rightarrow> Inl ValueError
               | Some xs \<Rightarrow> Inr (butlast materials @ [(last materials)(prefix \<mapsto> Vec xs)])))
         else Inr materials)"

fun parse_lines ::
  "(string \<Rightarrow> real option) \<Rightarrow> material list \<Rightarrow> string list \<Rightarrow> py_error + material list" where
  "parse_lines py_float materials [] = Inr materials"
| "parse_lines py_float materials (line # lines) =
     (case parse_line py_float materials line of
        Inl e \<Rightarrow> Inl e
      | Inr materials' \<Rightarrow> parse_lines py_float materials' lines)"

subsection \<open>Converting the records to textures (lines 45 to 71)\<close>

text \<open>\<^verbatim>\<open>os.path.join\<close> of two POSIX paths.\<close>

definition os_path_join :: "string \<Rightarrow> string \<Rightarrow> string" where
  "os_path_join a b =
     (if b \<noteq> [] \<and> hd b = CHR ''/'' then b
      else if a = [] \<or> last a = CHR ''/'' then a @ b
      else a @ ''/'' @ b)"

text \<open>Modelled from the spec: \<^verbatim>\<open>Texture2D\<close> on the vector of a constant makes a
  1 by 1 buffer holding it.\<close>

definition texture_of_constant :: "mtl_value \<Rightarrow> py_error + texture" where
  "texture_of_constant v =
     (case v of Vec xs \<Rightarrow> Inr (Texture2D [[xs]] []) | _ \<Rightarrow> Inl TypeError)"

text \<open>The pattern of lines 50 to 58: the texture named by the key \<open>map_key\<close> when
  the record has it, the constant under \<open>key\<close> otherwise. The image loader
  \<^verbatim>\<open>texture.load_texture2D\<close> is not part of the source file and is the parameter
  \<open>load_texture2D\<close>, from the path, the pixel transform and the channel count to the
  texture or the exception it raises.\<close>

definition load_slot ::
  "(string \<Rightarrow> (real \<Rightarrow> real) option \<Rightarrow> nat option \<Rightarrow> py_error + texture) \<Rightarrow> string \<Rightarrow> material
     \<Rightarrow> string \<Rightarrow> string \<Rightarrow> nat option \<Rightarrow> py_error + texture" where
  "load_slot load_texture2D mtl_path mat map_key key chans =
     (case mat map_key of
        Some (Str fn) \<Rightarrow> load_texture2D (os_path_join mtl_path fn) None chans
      | Some _ \<Rightarrow> Inl TypeError
      | None \<Rightarrow>
         (case mat key of
            None \<Rightarrow> Inl KeyError
          | Some v \<Rightarrow> texture_of_constant v))"

text \<open>\<^verbatim>\<open>mip[..., 0] = 0.0\<close> on one resolution level: IndexError when the pixels
  have no channel.\<close>

definition clear_channel :: "image \<Rightarrow> py_error + image" where
  "clear_channel mip =
     (if list_ex (list_ex (\<lambda>p. p = [])) mip then Inl IndexError
      else Inr (map (map (\<lambda>p. 0 # tl p)) mip))"

fun clear_mips :: "image list \<Rightarrow> py_error + image list" where
  "clear_mips [] = Inr []"
| "clear_mips (mip # mips) =
     (case clear_channel mip of
        Inl e \<Rightarrow> Inl e
      | Inr mip' \<Rightarrow>
         (case clear_mips mips of
            Inl e \<Rightarrow> Inl e
          | Inr mips' \<Rightarrow> Inr (mip' # mips')))"

definition clear_texture :: "texture \<Rightarrow> py_error + texture" where
  "clear_texture t =
     (case clear_mips (getMips t) of
        Inl e \<Rightarrow> Inl e
      | Inr mips \<Rightarrow> Inr (Texture2D (hd mips) (tl mips)))"

text \<open>The body of the loop \<^verbatim>\<open>for mat in materials\<close>. The colour conversion
  \<^verbatim>\<open>texture.srgb_to_rgb\<close> is the parameter \<open>srgb_to_rgb\<close>.\<close>

definition convert_material ::
  "(string \<Rightarrow> (real \<Rightarrow> real) option \<Rightarrow> nat option \<Rightarrow> py_error + texture) \<Rightarrow> (texture \<Rightarrow> texture)
     \<Rightarrow> string \<Rightarrow> bool \<Rightarrow> material \<Rightarrow> py_error + material" where
  "convert_material load_texture2D srgb_to_rgb mtl_path clear_ks mat0 =
     (let mat1 = (if mat0 ''bsdf'' = None then mat0(''bsdf'' \<mapsto> Str ''pbr'') else mat0)
      in case load_slot load_texture2D mtl_path mat1 ''map_kd'' ''kd'' None of
           Inl e \<Rightarrow> Inl e
         | Inr kd \<Rightarrow>
            (let mat2 = mat1(''kd'' \<mapsto> Tex kd)
             in case load_slot load_texture2D mtl_path mat2 ''map_ks'' ''ks'' (Some 3) of
                  Inl e \<Rightarrow> Inl e
                | Inr ks \<Rightarrow>
                   (let mat3 = mat2(''ks'' \<mapsto> Tex ks)
                    in case (case mat3 ''bump'' of
                               None \<Rightarrow> Inr mat3
                             | Some (Str fn) \<Rightarrow>
                                (case load_texture2D (os_path_join mtl_path fn)
                                        (Some (\<lambda>x. x * 2 - 1)) (Some 3) of
                                   Inl e \<Rightarrow> Inl e
                                 | Inr n \<Rightarrow> Inr (mat3(''normal'' \<mapsto> Tex n)))
                             | Some _ \<Rightarrow> Inl TypeError) of
                         Inl e \<Rightarrow> Inl e
                       | Inr mat4 \<Rightarrow>
                          (let mat5 = mat4(''kd'' \<mapsto> Tex (srgb_to_rgb kd))
                           in if clear_ks then
                                (case clear_texture ks of
                                   Inl e \<Rightarrow> Inl e
                                 | Inr ks' \<Rightarrow> Inr (mat5(''ks'' \<mapsto> Tex ks')))
                              else Inr mat5))))"

fun convert_materials ::
  "(string \<Rightarrow> (real \<Rightarrow> real) option \<Rightarrow> nat option \<Rightarrow> py_error + texture) \<Rightarrow> (texture \<Rightarrow> texture)
     \<Rightarrow> string \<Rightarrow> bool \<Rightarrow> material list \<Rightarrow> py_error + material list" where
  "convert_materials load_texture2D srgb_to_rgb mtl_path clear_ks [] = Inr []"
| "convert_materials load_texture2D srgb_to_rgb mtl_path clear_ks (mat # mats) =
     (case convert_material load_texture2D srgb_to_rgb mtl_path clear_ks mat of
        Inl e \<Rightarrow> Inl e
      | Inr mat' \<Rightarrow>
         (case convert_materials load_texture2D srgb_to_rgb mtl_path clear_ks mats of
            Inl e \<Rightarrow> Inl e
          | Inr mats' \<Rightarrow> Inr (mat' # mats')))"

text \<open>\<^verbatim>\<open>load_mtl\<close>, from the directory of the file and its lines.\<close>

definition load_mtl ::
  "(string \<Rightarrow> real option) \<Rightarrow> (string \<Rightarrow> (real \<Rightarrow> real) option \<Rightarrow> nat option \<Rightarrow> py_error + texture)
     \<Rightarrow> (texture \<Rightarrow> texture) \<Rightarrow> string \<Rightarrow> string list \<Rightarrow> bool \<Rightarrow> py_error + material list" where
  "load_mtl py_float load_texture2D srgb_to_rgb mtl_path lines clear_ks =
     (case parse_lines py_float [] lines of
        Inl e \<Rightarrow> Inl e
      | Inr materials \<Rightarrow>
          convert_materials load_texture2D srgb_to_rgb mtl_path clear_ks materials)"

section \<open>Notions used to state the properties\<close>

text \<open>The entry of the new table for a pair of an original UV index and a material
  index, given the scale coefficients: what line 195 computes when it creates the
  entry.\<close>

definition new_uv :: "(real \<Rightarrow> real) \<Rightarrow> real list \<Rightarrow> real list list \<Rightarrow> int \<times> int \<Rightarrow> py_error + real list" where
  "new_uv rnd s_coeff texcoords p =
     (case py_get texcoords (fst p) of
        Inl e \<Rightarrow> Inl e
      | Inr uv \<Rightarrow>
         (case py_get uv 0 of
            Inl e \<Rightarrow> Inl e
          | Inr u \<Rightarrow>
             (case py_get uv 1 of
                Inl e \<Rightarrow> Inl e
              | Inr v \<Rightarrow> Inr [rnd (rnd (rnd (of_int (snd p)) + u) / (s_coeff ! 1)), rnd (v / (s_coeff ! 0))])))"

text \<open>The nested dict read as a partial function on pairs.\<close>

definition lookup :: "tverts \<Rightarrow> int \<times> int \<Rightarrow> nat option" where
  "lookup tv p = (case tv (fst p) of None \<Rightarrow> None | Some d \<Rightarrow> d (snd p))"

text \<open>Appending a key unless it is there already, and the position of a key in a
  list.\<close>

definition add_new :: "'a \<Rightarrow> 'a list \<Rightarrow> 'a list" where
  "add_new p ks = (if p \<in> set ks then ks else ks @ [p])"

fun index_of :: "'a list \<Rightarrow> 'a \<Rightarrow> nat" where
  "index_of [] p = 0"
| "index_of (k # ks) p = (if k = p then 0 else Suc (index_of ks p))"

text \<open>The invariant of the loop over the face corners: \<open>ks\<close> lists the pairs
  met so far, each once, in the order of their creation.\<close>

definition uv_inv :: "(real \<Rightarrow> real) \<Rightarrow> real list \<Rightarrow> real list list \<Rightarrow> uv_state \<Rightarrow> (int \<times> int) list \<Rightarrow> bool" where
  "uv_inv rnd s_coeff texcoords st ks \<longleftrightarrow>
     distinct ks \<and> map Inr (snd st) = map (new_uv rnd s_coeff texcoords) ks \<and>
     (\<forall>p. lookup (fst st) p = (if p \<in> set ks then Some (index_of ks p) else None))"

text \<open>The pairs (original UV index, material index) of all face corners, in scan
  order, and the same list with only the first occurrence of each pair kept.\<close>

definition corner_pairs :: "int list list \<Rightarrow> int list \<Rightarrow> (int \<times> int) list" where
  "corner_pairs tfaces mfaces =
     concat (map (\<lambda>(row, matIdx). map (\<lambda>vi. (row ! vi, matIdx)) [0, 1, 2]) (zip tfaces mfaces))"

definition created_pairs :: "int list list \<Rightarrow> int list \<Rightarrow> (int \<times> int) list" where
  "created_pairs tfaces mfaces = rev (remdups (rev (corner_pairs tfaces mfaces)))"

text \<open>A material with the flat normal map written into it when it has none: what
  the patch does to one record. A list of materials is mixed when some have a
  normal map and some have none.\<close>

definition with_flat_normal :: "material \<Rightarrow> material" where
  "with_flat_normal m = (if m ''normal'' = None then m(''normal'' \<mapsto> Tex flat_normal) else m)"

definition mixed_normals :: "material list \<Rightarrow> bool" where
  "mixed_normals ms \<longleftrightarrow> list_ex (\<lambda>m. m ''normal'' \<noteq> None) ms \<and> list_ex (\<lambda>m. m ''normal'' = None) ms"

definition positive_textures :: "material list \<Rightarrow> bool" where
  "positive_textures ms \<longleftrightarrow>
     (\<forall>m\<in>set ms. \<forall>tex\<in>set textures. \<forall>t. m tex = Some (Tex t) \<longrightarrow>
        0 < height (data t) \<and> 0 < width (data t))"

definition returned_table ::
  "material list \<times> (py_error + material \<times> real list list \<times> int list list)
     \<Rightarrow> (real list list \<times> int list list) option" where
  "returned_table r = (case snd r of Inl e \<Rightarrow> None | Inr (uber, d, f) \<Rightarrow> Some (d, f))"

text \<open>The resolution a material contributes for a slot: that of its texture, or 1 by 1
  without one.\<close>

definition slot_res :: "material \<Rightarrow> string \<Rightarrow> nat \<times> nat" where
  "slot_res m tex = (case m tex of Some (Tex t) \<Rightarrow> getRes t | _ \<Rightarrow> (1, 1))"

text \<open>What the merge needs of the resampling function: an image of the resolution
  asked for.\<close>

definition scales_to_size :: "(image \<Rightarrow> nat \<times> nat \<Rightarrow> image) \<Rightarrow> bool" where
  "scales_to_size sc \<longleftrightarrow>
     (\<forall>img r. length (sc img r) = fst r \<and> (\<forall>row\<in>set (sc img r). length row = snd r))"




text \<open>The key and the value tokens of a line as the parser reads them, the test for
  the directive that starts a record, and the test that sends a key to the
  string-valued branch.\<close>

definition key_of :: "string \<Rightarrow> string" where
  "key_of line = lower (hd (re_split (strip line)))"

definition data_of :: "string \<Rightarrow> string list" where
  "data_of line = tl (re_split (strip line))"

definition is_newmtl :: "string \<Rightarrow> bool" where
  "is_newmtl line = is_substring ''newmtl'' (key_of line)"

definition string_valued :: "string \<Rightarrow> bool" where
  "string_valued key = list_ex (\<lambda>k. is_substring k key) string_keys"

text \<open>The value the last record of a parse result holds for a key.\<close>

definition stored_value :: "py_error + material list \<Rightarrow> string \<Rightarrow> mtl_value option" where
  "stored_value r key =
     (case r of Inl e \<Rightarrow> None | Inr ms \<Rightarrow> (case ms of [] \<Rightarrow> None | _ \<Rightarrow> last ms key))"

text \<open>The lines of a file grouped by record: a \<open>newmtl\<close> line opens a group, any
  other line joins the last group opened, and is dropped when there is none yet.
  A list of records matches a list of groups when both have the same length and
  each record holds the key \<open>name\<close> and the keys of the lines of its group after
  the first.\<close>

fun group_lines :: "string list list \<Rightarrow> string list \<Rightarrow> string list list" where
  "group_lines acc [] = acc"
| "group_lines acc (l # ls) =
     (if is_newmtl l then group_lines (acc @ [[l]]) ls
      else if acc = [] then group_lines acc ls
      else group_lines (butlast acc @ [last acc @ [l]]) ls)"

definition record_inv :: "material list \<Rightarrow> string list list \<Rightarrow> bool" where
  "record_inv ms acc \<longleftrightarrow>
     length ms = length acc
     \<and> (\<forall>i<length ms. acc ! i \<noteq> []
           \<and> dom (ms ! i) = insert ''name'' (key_of ` set (tl (acc ! i))))"

text \<open>Every group starts with a \<open>newmtl\<close> line and has no other.\<close>

definition groups_ok :: "string list list \<Rightarrow> bool" where
  "groups_ok acc \<longleftrightarrow>
     (\<forall>g\<in>set acc. g \<noteq> [] \<and> is_newmtl (hd g) \<and> (\<forall>l\<in>set (tl g). \<not> is_newmtl l))"

text \<open>Cell \<open>i\<close> of an atlas whose cells have the resolution \<open>r\<close>: the rows 0 to
  \<open>fst r\<close>, and of each the columns \<open>i * snd r\<close> to \<open>(i + 1) * snd r\<close>.\<close>

definition atlas_cell :: "image \<Rightarrow> nat \<times> nat \<Rightarrow> nat \<Rightarrow> image" where
  "atlas_cell img r i = map (\<lambda>row. take (snd r) (drop (i * snd r) row)) (take (fst r) img)"

text \<open>What the statements need of the rounding of a float format: it is monotone,
  and the integers up to \<open>2 ^ 53\<close> in magnitude are values of the format. Round to
  nearest in binary64 has both properties.\<close>

definition rounding :: "(real \<Rightarrow> real) \<Rightarrow> bool" where
  "rounding rnd \<longleftrightarrow>
     (\<forall>x y. x \<le> y \<longrightarrow> rnd x \<le> rnd y) \<and> (\<forall>k::int. \<bar>k\<bar> \<le> 2 ^ 53 \<longrightarrow> rnd (of_int k) = of_int k)"

text \<open>Rounding a real to the nearest integer, ties to the even one.\<close>

definition round_even :: "real \<Rightarrow> int" where
  "round_even x =
     (let f = \<lfloor>x\<rfloor>; d = x - of_int f
      in if d < 1 / 2 then f else if 1 / 2 < d then f + 1 else if even f then f else f + 1)"

text \<open>Round to nearest, ties to even, in the binary64 format: a positive \<open>x\<close> with
  \<open>2 ^ e \<le> x < 2 ^ (e + 1)\<close> goes to the nearest multiple of \<open>2 ^ (e - 52)\<close>, and
  the rounding is symmetric in the sign. The exponent is not bounded: overflow and
  subnormal numbers are not modelled.\<close>

definition round_pos :: "real \<Rightarrow> real" where
  "round_pos x =
     of_int (round_even (x / 2 powr of_int (\<lfloor>log 2 x\<rfloor> - 52))) * 2 powr of_int (\<lfloor>log 2 x\<rfloor> - 52)"

definition binary64 :: "real \<Rightarrow> real" where
  "binary64 x = (if x = 0 then 0 else sgn x * round_pos \<bar>x\<bar>)"

text \<open>The white space \<^verbatim>\<open>str.strip()\<close> removes and the characters the pattern of
  \<^verbatim>\<open>re.split\<close> matches, by name.\<close>

definition white :: "char \<Rightarrow> bool" where
  "white ch \<longleftrightarrow>
     ch \<in> set [CHR 0x09, CHR 0x0A, CHR 0x0B, CHR 0x0C, CHR 0x0D,
                CHR 0x1C, CHR 0x1D, CHR 0x1E, CHR 0x1F, CHR '' '']"

definition separator :: "char \<Rightarrow> bool" where
  "separator ch \<longleftrightarrow> ch = CHR '' '' \<or> ch = CHR 0x09 \<or> ch = CHR 0x0A"

text \<open>A text written as its fields and the separators between them: the first
  field, then for each further field the separator character, the length of the
  run of it less one, and the field.\<close>

fun unsplit :: "string \<Rightarrow> (char \<times> nat \<times> string) list \<Rightarrow> string" where
  "unsplit f [] = f"
| "unsplit f ((c, n, g) # rest) = f @ replicate (Suc n) c @ unsplit g rest"

text \<open>The fields hold no separator character, every run is of one separator
  character, and where a field between two runs is empty the runs are of different
  characters (they would be one run otherwise).\<close>

fun fields_ok :: "string \<Rightarrow> (char \<times> nat \<times> string) list \<Rightarrow> bool" where
  "fields_ok f [] = list_all (\<lambda>ch. \<not> separator ch) f"
| "fields_ok f ((c, n, g) # rest) =
     (list_all (\<lambda>ch. \<not> separator ch) f \<and> separator c
      \<and> (g = [] \<longrightarrow> (case rest of [] \<Rightarrow> True | (c', n', g') # rest' \<Rightarrow> c' \<noteq> c))
      \<and> fields_ok g rest)"

text \<open>Lowercasing as the spec has it: the letters A to Z, codes 65 to 90, move up by
  32, every other character stays.\<close>

definition spec_lower :: "string \<Rightarrow> string" where
  "spec_lower s =
     map (\<lambda>ch. if 65 \<le> (of_char ch :: nat) \<and> (of_char ch :: nat) \<le> 90
               then char_of (of_char ch + 32 :: nat) else ch) s"

section \<open>Example inputs\<close>

text \<open>Exact arithmetic: nothing is rounded.\<close>

definition exact :: "real \<Rightarrow> real" where
  "exact x = x"

text \<open>Modelled from the spec: the resampling of the texture buffer interface
  (\<^verbatim>\<open>resample(buffer, targetResolution)\<close>), here by nearest neighbour. It stands for
  \<^verbatim>\<open>util.scale_img_nhwc\<close> in the examples only.\<close>

definition nearest_scale :: "image \<Rightarrow> nat \<times> nat \<Rightarrow> image" where
  "nearest_scale img r =
     map (\<lambda>y. map (\<lambda>x. img ! (y * height img div fst r) ! (x * width img div snd r)) [0..<snd r])
       [0..<fst r]"

text \<open>Two materials as \<^verbatim>\<open>load_mtl\<close> makes them from constants: one without and
  one with a normal map.\<close>

definition ex_plain :: material where
  "ex_plain = [''bsdf'' \<mapsto> Str ''pbr'', ''kd'' \<mapsto> Tex (Texture2D [[[1, 0, 0]]] []),
               ''ks'' \<mapsto> Tex (Texture2D [[[0, 1, 1]]] [])]"

definition ex_bumpy :: material where
  "ex_bumpy = [''bsdf'' \<mapsto> Str ''pbr'', ''kd'' \<mapsto> Tex (Texture2D [[[0, 1, 0]]] []),
               ''ks'' \<mapsto> Tex (Texture2D [[[0, 1, 1]]] []),
               ''normal'' \<mapsto> Tex (Texture2D [[[0, 0, 1], [0, 1, 0]]] [])]"



definition ex_float :: "string \<Rightarrow> real option" where
  "ex_float s =
     (if s = ''0'' then Some 0 else if s = ''1'' then Some 1 else if s = ''2'' then Some 2
      else None)"

text \<open>An image loader for the examples: one file, with two resolution levels.\<close>

definition ex_loader :: "string \<Rightarrow> (real \<Rightarrow> real) option \<Rightarrow> nat option \<Rightarrow> py_error + texture" where
  "ex_loader path f chans =
     (if path = ''dir/ks.png''
      then Inr (Texture2D [[[5, 6, 7], [8, 9, 10]]] [[[[3, 4, 5]]]])
      else Inl RuntimeError)"


section \<open>Properties of the coordinate rewrite\<close>

lemma index_of_less: "p \<in> set ks \<Longrightarrow> index_of ks p < length ks"
  by (induction ks) auto

lemma index_of_nth: "p \<in> set ks \<Longrightarrow> ks ! index_of ks p = p"
  by (induction ks) auto

lemma index_of_append_in: "p \<in> set ks \<Longrightarrow> index_of (ks @ ls) p = index_of ks p"
  by (induction ks) auto

lemma index_of_append_new: "p \<notin> set ks \<Longrightarrow> index_of (ks @ [p]) p = length ks"
  by (induction ks) auto

lemma index_of_add_new: "index_of (add_new p ks) p = (if p \<in> set ks then index_of ks p else length ks)"
  by (simp add: add_new_def index_of_append_new)

lemma lookup_upd_same:
  "lookup (tv(ti \<mapsto> (case tv ti of None \<Rightarrow> Map.empty | Some d \<Rightarrow> d))) = lookup tv"
  by (rule ext) (auto simp: lookup_def split: option.splits)

lemma lookup_upd_new:
  "lookup (tv(ti \<mapsto> (case tv ti of None \<Rightarrow> Map.empty | Some d \<Rightarrow> d)(mi \<mapsto> n))) = (lookup tv)((ti, mi) \<mapsto> n)"
  by (rule ext) (auto simp: lookup_def split: option.splits)

lemma rewrite_corner_step:
  assumes "rewrite_corner rnd s tc mi (st, row) vi = Inr (st', row')"
      and "uv_inv rnd s tc st ks"
  shows "vi < length row \<and> uv_inv rnd s tc st' (add_new (row ! vi, mi) ks)
         \<and> row' = row[vi := int (index_of (add_new (row ! vi, mi) ks) (row ! vi, mi))]"
proof -
  obtain tv data where st: "st = (tv, data)" by (cases st)
  from assms(1) have vi: "vi < length row"
    by (auto simp: rewrite_corner_def st py_get_def Let_def split: sum.splits if_splits)
  then have g: "py_get row (int vi) = Inr (row ! vi)"
    by (simp add: py_get_def)
  let ?ti = "row ! vi"
  let ?p = "(?ti, mi)"
  let ?inner = "case tv ?ti of None \<Rightarrow> Map.empty | Some d \<Rightarrow> d"
  have lk: "lookup tv ?p = ?inner mi"
    by (simp add: lookup_def split: option.splits)
  from assms(2) have inv: "distinct ks" "map Inr data = map (new_uv rnd s tc) ks"
    "\<And>p. lookup tv p = (if p \<in> set ks then Some (index_of ks p) else None)"
    by (auto simp: uv_inv_def st split: if_splits)
  have len: "length data = length ks"
    using inv(2) by (metis length_map)
  show ?thesis
  proof (cases "?p \<in> set ks")
    case True
    then have "?inner mi = Some (index_of ks ?p)" using inv(3)[of ?p] lk by simp
    with assms(1) g have "st' = (tv(?ti \<mapsto> ?inner), data)" "row' = row[vi := int (index_of ks ?p)]"
      by (simp_all add: rewrite_corner_def st Let_def)
    with True vi assms(2) show ?thesis
      by (simp add: add_new_def uv_inv_def st lookup_upd_same)
  next
    case False
    then have none: "?inner mi = None" using inv(3)[of ?p] lk by simp
    with assms(1) g obtain c where c: "new_uv rnd s tc ?p = Inr c"
      and st': "st' = (tv(?ti \<mapsto> ?inner(mi \<mapsto> length data)), data @ [c])"
      and row': "row' = row[vi := int (length data)]"
      by (auto simp: rewrite_corner_def st Let_def new_uv_def split: sum.splits)
    have "uv_inv rnd s tc st' (ks @ [?p])"
      unfolding uv_inv_def st' using False inv c len
      by (auto simp: lookup_upd_new index_of_append_in index_of_append_new)
    with False vi row' len show ?thesis
      by (simp add: add_new_def index_of_append_new)
  qed
qed

lemma set_add_new: "set (add_new p ks) = insert p (set ks)"
  by (auto simp: add_new_def)

lemma distinct_add_new: "distinct ks \<Longrightarrow> distinct (add_new p ks)"
  by (simp add: add_new_def)

lemma set_fold_add_new: "set (fold add_new ps ks) = set ks \<union> set ps"
  by (induction ps arbitrary: ks) (auto simp: set_add_new)

lemma distinct_fold_add_new: "distinct ks \<Longrightarrow> distinct (fold add_new ps ks)"
  by (induction ps arbitrary: ks) (auto simp: distinct_add_new)

lemma index_of_add_new_in: "p \<in> set ks \<Longrightarrow> index_of (add_new q ks) p = index_of ks p"
  by (simp add: add_new_def index_of_append_in)

lemma index_of_fold_add_new: "p \<in> set ks \<Longrightarrow> index_of (fold add_new ps ks) p = index_of ks p"
  by (induction ps arbitrary: ks) (auto simp: index_of_add_new_in set_add_new)

lemma remdups_snoc: "remdups (xs @ [p]) = remdups (filter (\<lambda>q. q \<noteq> p) xs) @ [p]"
  by (induction xs) auto

lemma fold_add_new_remdups:
  "fold add_new ps ks = ks @ rev (remdups (rev (filter (\<lambda>p. p \<notin> set ks) ps)))"
proof (induction ps arbitrary: ks)
  case Nil
  show ?case by simp
next
  case (Cons p ps)
  show ?case
  proof (cases "p \<in> set ks")
    case True
    then show ?thesis using Cons[of ks] by (simp add: add_new_def)
  next
    case False
    let ?f = "filter (\<lambda>q. q \<notin> set ks) ps"
    have a: "filter (\<lambda>q. q \<notin> set (ks @ [p])) ps = filter (\<lambda>q. q \<noteq> p) ?f"
      by (induction ps) auto
    have "remdups (rev ?f @ [p]) = remdups (filter (\<lambda>q. q \<noteq> p) (rev ?f)) @ [p]"
      by (rule remdups_snoc)
    then have b: "rev (remdups (rev (p # ?f))) = p # rev (remdups (rev (filter (\<lambda>q. q \<noteq> p) ?f)))"
      by (simp add: rev_filter)
    have "fold add_new (p # ps) ks = fold add_new ps (ks @ [p])"
      using False by (simp add: add_new_def)
    also have "\<dots> = (ks @ [p]) @ rev (remdups (rev (filter (\<lambda>q. q \<noteq> p) ?f)))"
      using Cons[of "ks @ [p]"] a by simp
    also have "\<dots> = ks @ rev (remdups (rev (p # ?f)))"
      using b by simp
    finally show ?thesis using False by simp
  qed
qed

lemma rewrite_corners_steps:
  assumes "rewrite_corners rnd s tc mi (st, row) vis = Inr (st', row')"
      and "uv_inv rnd s tc st ks" and "distinct vis"
  shows "(\<forall>vi\<in>set vis. vi < length row)
       \<and> uv_inv rnd s tc st' (fold add_new (map (\<lambda>vi. (row ! vi, mi)) vis) ks)
       \<and> length row' = length row
       \<and> (\<forall>vi. row' ! vi =
            (if vi \<in> set vis
             then int (index_of (fold add_new (map (\<lambda>vi. (row ! vi, mi)) vis) ks) (row ! vi, mi))
             else row ! vi))"
  using assms
proof (induction vis arbitrary: st row ks)
  case Nil
  then show ?case by simp
next
  case (Cons vi vis)
  from Cons.prems(1) obtain st1 row1 where
    c: "rewrite_corner rnd s tc mi (st, row) vi = Inr (st1, row1)" and
    r: "rewrite_corners rnd s tc mi (st1, row1) vis = Inr (st', row')"
    by (auto split: sum.splits)
  let ?p = "(row ! vi, mi)"
  let ?k1 = "add_new ?p ks"
  from rewrite_corner_step[OF c Cons.prems(2)] have
    vi: "vi < length row" and inv1: "uv_inv rnd s tc st1 ?k1" and
    row1: "row1 = row[vi := int (index_of ?k1 ?p)]"
    by simp_all
  from Cons.prems(3) have nin: "vi \<notin> set vis" and dv: "distinct vis" by simp_all
  have same: "map (\<lambda>vi. (row1 ! vi, mi)) vis = map (\<lambda>vi. (row ! vi, mi)) vis"
  proof (rule map_cong[OF refl])
    fix v assume "v \<in> set vis"
    with nin have "v \<noteq> vi" by auto
    then show "(row1 ! v, mi) = (row ! v, mi)" by (simp add: row1)
  qed
  let ?kf = "fold add_new (map (\<lambda>vi. (row ! vi, mi)) vis) ?k1"
  from Cons.IH[OF r inv1 dv, unfolded same] have
    ih1: "\<forall>v\<in>set vis. v < length row1" and ih2: "uv_inv rnd s tc st' ?kf" and
    ih3: "length row' = length row1" and
    ih4: "\<forall>v. row' ! v = (if v \<in> set vis then int (index_of ?kf (row1 ! v, mi)) else row1 ! v)"
    by blast+
  have pin: "?p \<in> set ?k1" by (simp add: set_add_new)
  have "row' ! v = (if v \<in> set (vi # vis) then int (index_of ?kf (row ! v, mi)) else row ! v)" for v
  proof (cases "v = vi")
    case True
    with ih4 nin have "row' ! v = row1 ! vi" by simp
    also have "\<dots> = int (index_of ?k1 ?p)" using vi by (simp add: row1)
    also have "\<dots> = int (index_of ?kf ?p)" using pin by (simp add: index_of_fold_add_new)
    finally show ?thesis using True by simp
  next
    case False
    then have "row1 ! v = row ! v" by (simp add: row1)
    with False show ?thesis using ih4 by simp
  qed
  with ih1 ih2 ih3 vi show ?case by (simp add: row1)
qed

lemma corner_pairs_Cons:
  "corner_pairs (row # rows) (mi # mf) = map (\<lambda>vi. (row ! vi, mi)) [0, 1, 2] @ corner_pairs rows mf"
  by (simp add: corner_pairs_def)

lemma rewrite_faces_steps:
  assumes "rewrite_faces rnd s tc st tfaces mfaces = Inr (st', tfaces')"
      and "uv_inv rnd s tc st ks"
  shows "length tfaces \<le> length mfaces
       \<and> uv_inv rnd s tc st' (fold add_new (corner_pairs tfaces mfaces) ks)
       \<and> length tfaces' = length tfaces
       \<and> (\<forall>fi<length tfaces. 3 \<le> length (tfaces ! fi)
            \<and> length (tfaces' ! fi) = length (tfaces ! fi)
            \<and> (\<forall>vi. tfaces' ! fi ! vi =
                 (if vi < 3
                  then int (index_of (fold add_new (corner_pairs tfaces mfaces) ks)
                                     (tfaces ! fi ! vi, mfaces ! fi))
                  else tfaces ! fi ! vi)))"
  using assms
proof (induction rnd s tc st tfaces mfaces arbitrary: st' tfaces' ks rule: rewrite_faces.induct)
  case (1 rnd s tc st mfaces)
  then show ?case by (simp add: corner_pairs_def)
next
  case (2 rnd s tc st row rows)
  then show ?case by simp
next
  case (3 rnd s tc st row rows mi mf)
  from "3.prems"(1) obtain st1 row1 st2 rows2 where
    c: "rewrite_corners rnd s tc mi (st, row) [0, 1, 2] = Inr (st1, row1)" and
    r: "rewrite_faces rnd s tc st1 rows mf = Inr (st2, rows2)" and
    res: "st' = st2" "tfaces' = row1 # rows2"
    by (auto split: sum.splits prod.splits)
  let ?ps = "map (\<lambda>vi. (row ! vi, mi)) [0, 1, 2]"
  let ?k1 = "fold add_new ?ps ks"
  let ?kf = "fold add_new (corner_pairs rows mf) ?k1"
  have kf: "fold add_new (corner_pairs (row # rows) (mi # mf)) ks = ?kf"
    by (simp only: corner_pairs_Cons fold_append comp_apply)
  from rewrite_corners_steps[OF c "3.prems"(2)] have
    len3: "\<forall>vi\<in>set [0, 1, 2]. vi < length row" and inv1: "uv_inv rnd s tc st1 ?k1" and
    lrow: "length row1 = length row" and
    row1: "\<forall>vi. row1 ! vi = (if vi \<in> set [0, 1, 2] then int (index_of ?k1 (row ! vi, mi)) else row ! vi)"
    by simp_all
  have l3: "3 \<le> length row" using len3 by simp
  have in3: "vi \<in> set [0, 1, 2::nat] \<longleftrightarrow> vi < 3" for vi by auto
  from "3.IH"[OF c refl r inv1] have
    ih1: "length rows \<le> length mf" and ih2: "uv_inv rnd s tc st2 ?kf" and
    ih3: "length rows2 = length rows" and
    ih4: "\<forall>fi<length rows. 3 \<le> length (rows ! fi) \<and> length (rows2 ! fi) = length (rows ! fi) \<and>
           (\<forall>vi. rows2 ! fi ! vi =
              (if vi < 3 then int (index_of ?kf (rows ! fi ! vi, mf ! fi)) else rows ! fi ! vi))"
    by blast+
  have r0: "row1 ! vi = (if vi < 3 then int (index_of ?kf (row ! vi, mi)) else row ! vi)" for vi
  proof (cases "vi < 3")
    case True
    then have "(row ! vi, mi) \<in> set ?k1"
      unfolding set_fold_add_new using in3[of vi] by auto
    then have "index_of ?kf (row ! vi, mi) = index_of ?k1 (row ! vi, mi)"
      by (rule index_of_fold_add_new)
    with True row1 in3[of vi] show ?thesis by simp
  next
    case False
    with row1 in3[of vi] show ?thesis by simp
  qed
  have "3 \<le> length ((row # rows) ! fi)
      \<and> length ((row1 # rows2) ! fi) = length ((row # rows) ! fi)
      \<and> (\<forall>vi. (row1 # rows2) ! fi ! vi =
            (if vi < 3 then int (index_of ?kf ((row # rows) ! fi ! vi, (mi # mf) ! fi))
             else (row # rows) ! fi ! vi))"
    if "fi < length (row # rows)" for fi
  proof (cases fi)
    case 0
    with l3 lrow r0 show ?thesis by simp
  next
    case (Suc j)
    with that have "j < length rows" by simp
    with ih4 Suc show ?thesis by simp
  qed
  with ih1 ih2 ih3 res show ?case unfolding kf by simp
qed

lemma fold_add_new_Nil: "fold add_new ps [] = rev (remdups (rev ps))"
  by (simp add: fold_add_new_remdups)

lemma uv_inv_empty: "uv_inv rnd s tc (Map.empty, []) []"
  by (simp add: uv_inv_def lookup_def)

lemma corner_pairs_mem:
  assumes "fi < length tfaces" "length tfaces \<le> length mfaces" "vi < 3"
  shows "(tfaces ! fi ! vi, mfaces ! fi) \<in> set (corner_pairs tfaces mfaces)"
proof -
  have "(tfaces ! fi, mfaces ! fi) \<in> set (zip tfaces mfaces)"
    using assms(1,2) by (auto simp: set_zip)
  moreover have "vi \<in> set [0, 1, 2::nat]" using assms(3) by auto
  ultimately have "(tfaces ! fi ! vi, mfaces ! fi) \<in>
      (\<Union>(row, matIdx)\<in>set (zip tfaces mfaces). (\<lambda>vi. (row ! vi, matIdx)) ` set [0, 1, 2])"
    by blast
  then show ?thesis
    unfolding corner_pairs_def set_concat set_map by (simp add: case_prod_unfold image_image)
qed

lemma corner_pairs_set:
  assumes "length tfaces \<le> length mfaces"
  shows "set (corner_pairs tfaces mfaces) = {(tfaces ! fi ! vi, mfaces ! fi) | fi vi. fi < length tfaces \<and> vi < 3}"
proof (intro set_eqI iffI)
  fix p assume "p \<in> set (corner_pairs tfaces mfaces)"
  then obtain row mi where rm: "(row, mi) \<in> set (zip tfaces mfaces)"
    and p3: "p = (row ! 0, mi) \<or> p = (row ! 1, mi) \<or> p = (row ! 2, mi)"
    unfolding corner_pairs_def by auto
  have "\<exists>vi<3. p = (row ! vi, mi)"
  proof -
    have "(0::nat) < 3" "(1::nat) < 3" "(2::nat) < 3" by simp_all
    with p3 show ?thesis by blast
  qed
  then obtain vi where "vi < 3" and p: "p = (row ! vi, mi)" by blast
  moreover from rm obtain fi where "fi < length tfaces" "row = tfaces ! fi" "mi = mfaces ! fi"
    by (auto simp: set_zip)
  ultimately show "p \<in> {(tfaces ! fi ! vi, mfaces ! fi) | fi vi. fi < length tfaces \<and> vi < 3}"
    using p by blast
next
  fix p assume "p \<in> {(tfaces ! fi ! vi, mfaces ! fi) | fi vi. fi < length tfaces \<and> vi < 3}"
  then show "p \<in> set (corner_pairs tfaces mfaces)"
    using corner_pairs_mem[OF _ assms] by auto
qed

lemma rewrite_texcoords_result:
  assumes "rewrite_texcoords rnd s tc tfaces mfaces = Inr (d, tfaces')"
  shows "length tfaces \<le> length mfaces"
    and "map Inr d = map (new_uv rnd s tc) (created_pairs tfaces mfaces)"
    and "length tfaces' = length tfaces"
    and "\<And>fi. fi < length tfaces \<Longrightarrow> 3 \<le> length (tfaces ! fi) \<and> length (tfaces' ! fi) = length (tfaces ! fi)"
    and "\<And>fi vi. fi < length tfaces \<Longrightarrow> vi < 3 \<Longrightarrow>
           tfaces' ! fi ! vi = int (index_of (created_pairs tfaces mfaces) (tfaces ! fi ! vi, mfaces ! fi))"
    and "\<And>fi vi. fi < length tfaces \<Longrightarrow> \<not> vi < 3 \<Longrightarrow> tfaces' ! fi ! vi = tfaces ! fi ! vi"
proof -
  from assms obtain tv where
    r: "rewrite_faces rnd s tc (Map.empty, []) tfaces mfaces = Inr ((tv, d), tfaces')"
    by (auto simp: rewrite_texcoords_def split: sum.splits prod.splits)
  note st = rewrite_faces_steps[OF r uv_inv_empty, unfolded fold_add_new_Nil, folded created_pairs_def]
  from st show "length tfaces \<le> length mfaces" by blast
  from st have "uv_inv rnd s tc (tv, d) (created_pairs tfaces mfaces)" by blast
  then show "map Inr d = map (new_uv rnd s tc) (created_pairs tfaces mfaces)"
    by (simp add: uv_inv_def)
  from st show "length tfaces' = length tfaces" by blast
  from st show "\<And>fi. fi < length tfaces \<Longrightarrow> 3 \<le> length (tfaces ! fi) \<and> length (tfaces' ! fi) = length (tfaces ! fi)"
    by blast
  from st have a: "\<forall>fi<length tfaces. \<forall>vi. tfaces' ! fi ! vi =
                 (if vi < 3
                  then int (index_of (created_pairs tfaces mfaces) (tfaces ! fi ! vi, mfaces ! fi))
                  else tfaces ! fi ! vi)" by blast
  show "\<And>fi vi. fi < length tfaces \<Longrightarrow> vi < 3 \<Longrightarrow>
           tfaces' ! fi ! vi = int (index_of (created_pairs tfaces mfaces) (tfaces ! fi ! vi, mfaces ! fi))"
    using a by simp
  show "\<And>fi vi. fi < length tfaces \<Longrightarrow> \<not> vi < 3 \<Longrightarrow> tfaces' ! fi ! vi = tfaces ! fi ! vi"
    using a by simp
qed

lemma created_pairs_set: "set (created_pairs tfaces mfaces) = set (corner_pairs tfaces mfaces)"
  by (simp add: created_pairs_def)

lemma created_pairs_distinct: "distinct (created_pairs tfaces mfaces)"
  by (simp add: created_pairs_def)

lemma rewrite_texcoords_corner:
  assumes "rewrite_texcoords rnd s tc tfaces mfaces = Inr (d, tfaces')"
      and "fi < length tfaces" "vi < 3"
  shows "\<exists>uv u v. py_get tc (tfaces ! fi ! vi) = Inr uv \<and> py_get uv 0 = Inr u \<and> py_get uv 1 = Inr v
           \<and> py_get d (tfaces' ! fi ! vi) = Inr [rnd (rnd (rnd (of_int (mfaces ! fi)) + u) / (s ! 1)), rnd (v / (s ! 0))]"
proof -
  note r = rewrite_texcoords_result[OF assms(1)]
  let ?ks = "created_pairs tfaces mfaces"
  let ?p = "(tfaces ! fi ! vi, mfaces ! fi)"
  have pin: "?p \<in> set ?ks"
    using corner_pairs_mem[OF assms(2) r(1) assms(3)] by (simp add: created_pairs_set)
  then have lt: "index_of ?ks ?p < length ?ks" by (rule index_of_less)
  have len: "length d = length ?ks" using r(2) by (metis length_map)
  have "map Inr d ! index_of ?ks ?p = map (new_uv rnd s tc) ?ks ! index_of ?ks ?p"
    using r(2) by simp
  then have nu: "new_uv rnd s tc ?p = Inr (d ! index_of ?ks ?p)"
    using lt len by (simp add: index_of_nth[OF pin])
  have idx: "tfaces' ! fi ! vi = int (index_of ?ks ?p)" using r(5)[OF assms(2,3)] .
  have g: "py_get d (tfaces' ! fi ! vi) = Inr (d ! index_of ?ks ?p)"
    using lt len by (simp add: idx py_get_def)
  from nu show ?thesis unfolding g
    by (auto simp: new_uv_def split: sum.splits)
qed

lemma index_of_inj:
  assumes "p \<in> set ks" "q \<in> set ks" "index_of ks p = index_of ks q"
  shows "p = q"
  using assms index_of_nth by metis

section \<open>Properties of the merge\<close>

lemma has_norm_mixed:
  "(list_ex id (map (\<lambda>m. m ''normal'' \<noteq> None) ms) \<and> \<not> list_all id (map (\<lambda>m. m ''normal'' \<noteq> None) ms))
     = mixed_normals ms"
  by (auto simp: mixed_normals_def list_ex_iff list_all_iff)

lemma merge_materials_empty: "merge_materials rnd sc [] tc tf mf = ([], Inl (AssertionError []))"
  by (simp add: merge_materials_def)

lemma merge_materials_unmixed:
  "ms \<noteq> [] \<Longrightarrow> \<not> mixed_normals ms \<Longrightarrow>
     merge_materials rnd sc ms tc tf mf = (ms, merge_checked rnd sc ms tc tf mf)"
  unfolding merge_materials_def Let_def has_norm_mixed by simp

lemma merge_materials_mixed:
  "ms \<noteq> [] \<Longrightarrow> mixed_normals ms \<Longrightarrow>
     merge_materials rnd sc ms tc tf mf =
       (case inject_normals ms of
          (ms', Some e) \<Rightarrow> (ms', Inl e)
        | (ms', None) \<Rightarrow> (ms', merge_checked rnd sc ms' tc tf mf))"
  unfolding merge_materials_def Let_def has_norm_mixed by simp

lemma inject_normals_length: "inject_normals ms = (ms', e) \<Longrightarrow> length ms' = length ms"
  by (induction ms arbitrary: ms' e)
     (auto split: if_splits option.splits mtl_value.splits prod.splits)

lemma inject_normals_None:
  "inject_normals ms = (ms', None) \<Longrightarrow> ms' = map with_flat_normal ms"
  by (induction ms arbitrary: ms')
     (auto simp: with_flat_normal_def split: if_splits option.splits mtl_value.splits prod.splits)

lemma inject_normals_ok:
  "\<forall>m\<in>set ms. m ''normal'' = None \<longrightarrow> (\<exists>t. m ''kd'' = Some (Tex t)) \<Longrightarrow>
     inject_normals ms = (map with_flat_normal ms, None)"
  by (induction ms) (auto simp: with_flat_normal_def)

lemma with_flat_normal_normal: "with_flat_normal m ''normal'' \<noteq> None"
  by (simp add: with_flat_normal_def)

lemma with_flat_normal_other: "k \<noteq> ''normal'' \<Longrightarrow> with_flat_normal m k = m k"
  by (simp add: with_flat_normal_def)

lemma with_flat_normal_id: "m ''normal'' \<noteq> None \<Longrightarrow> with_flat_normal m = m"
  by (auto simp: with_flat_normal_def)

lemma py_eq_error: "py_eq a b = Inl e \<Longrightarrow> e = RuntimeError"
  by (auto simp: py_eq_def split: mtl_value.splits if_splits)

lemma check_materials_normal:
  "\<forall>m\<in>set ms. (m ''normal'' \<noteq> None) = (first ''normal'' \<noteq> None) \<Longrightarrow>
     check_materials first ms \<noteq> Some (AssertionError normal_message)"
proof (induction ms)
  case Nil
  show ?case by simp
next
  case (Cons m ms)
  have ne: "bsdf_message \<noteq> normal_message"
    by (simp add: bsdf_message_def normal_message_def)
  from Cons show ?case
    by (auto simp: ne split: option.splits sum.splits dest: py_eq_error)
qed

lemma merge_checked_Inr:
  assumes "merge_checked rnd sc ms tc tf mf = Inr (uber, d, tf')"
  shows "\<exists>bsdf r fr. check_materials (hd ms) ms = None \<and> hd ms ''bsdf'' = Some bsdf
           \<and> max_res_loop None (List.product ms textures) = Inr (Some r)
           \<and> compute_full_res r (length ms) = Inr fr
           \<and> combine_textures sc ms r fr
                [''name'' \<mapsto> Str ''uber_material'', ''bsdf'' \<mapsto> bsdf] textures = Inr uber
           \<and> rewrite_texcoords rnd [rnd (rnd (real (fst fr)) / rnd (real (fst r))),
                                     rnd (rnd (real (snd fr)) / rnd (real (snd r)))]
                tc tf mf = Inr (d, tf')"
  using assms unfolding merge_checked_def Let_def
  by (auto split: option.splits sum.splits prod.splits)

lemma merge_materials_Inr:
  assumes "merge_materials rnd sc ms tc tf mf = (ms', Inr res)"
  shows "ms \<noteq> [] \<and> merge_checked rnd sc ms' tc tf mf = Inr res
         \<and> (if mixed_normals ms then inject_normals ms = (ms', None) else ms' = ms)"
proof (cases "ms = []")
  case True
  with assms show ?thesis by (simp add: merge_materials_empty)
next
  case False
  show ?thesis
  proof (cases "mixed_normals ms")
    case True
    with False assms show ?thesis
      by (auto simp: merge_materials_mixed split: prod.splits option.splits)
  next
    case m: False
    with False assms show ?thesis
      by (auto simp: merge_materials_unmixed)
  qed
qed

lemmas eval_defs = merge_materials_def merge_checked_def rewrite_texcoords_def rewrite_corner_def
  py_get_def tex_res_def getRes_def height_def width_def channels_def np_maximum_def
  compute_full_res_def pot_ceil_def ceil_log2.simps torch_cat_def upscale_replicate_def
  py_eq_def exact_def
  get_texture_def textures_def flat_normal_def nearest_scale_def ex_plain_def ex_bumpy_def
  bsdf_message_def normal_message_def Let_def

lemma ex_merge_plain:
  "\<exists>uber. merge_materials exact nearest_scale [ex_plain, ex_plain] [[0, 0], [1, 0], [0, 1]]
       [[0, 1, 2], [0, 1, 2]] [0, 1]
     = ([ex_plain, ex_plain],
        Inr (uber, [[0, 0], [1 / 2, 0], [0, 1], [1 / 2, 0], [1, 0], [1 / 2, 1]],
             [[0, 1, 2], [3, 4, 5]]))"
  by (simp add: eval_defs)

lemma merge_corner_entry:
  assumes "merge_materials rnd scale_img materials texcoords tfaces mfaces
             = (materials', Inr (uber, new_tverts_data, tfaces'))"
      and "fi < length tfaces" and "vi < 3"
  shows "\<exists>max_res full_res uv u v.
           max_res_loop None (List.product materials' textures) = Inr (Some max_res)
         \<and> compute_full_res max_res (length materials) = Inr full_res
         \<and> py_get texcoords (tfaces ! fi ! vi) = Inr uv
         \<and> py_get uv 0 = Inr u \<and> py_get uv 1 = Inr v
         \<and> py_get new_tverts_data (tfaces' ! fi ! vi) =
             Inr [rnd (rnd (rnd (of_int (mfaces ! fi)) + u)
                         / rnd (rnd (real (snd full_res)) / rnd (real (snd max_res)))),
                  rnd (v / rnd (rnd (real (fst full_res)) / rnd (real (fst max_res))))]"
proof -
  from merge_materials_Inr[OF assms(1)] have
    mc: "merge_checked rnd scale_img materials' texcoords tfaces mfaces = Inr (uber, new_tverts_data, tfaces')"
    and ms': "if mixed_normals materials then inject_normals materials = (materials', None)
              else materials' = materials"
    by simp_all
  have len: "length materials' = length materials"
    using ms' inject_normals_length by (auto split: if_splits)
  from merge_checked_Inr[OF mc] obtain r fr where
    r: "max_res_loop None (List.product materials' textures) = Inr (Some r)" and
    fr: "compute_full_res r (length materials') = Inr fr" and
    rw: "rewrite_texcoords rnd [rnd (rnd (real (fst fr)) / rnd (real (fst r))),
                                rnd (rnd (real (snd fr)) / rnd (real (snd r)))]
           texcoords tfaces mfaces = Inr (new_tverts_data, tfaces')"
    by blast
  from rewrite_texcoords_corner[OF rw assms(2,3)] obtain uv u v where
    a: "py_get texcoords (tfaces ! fi ! vi) = Inr uv" "py_get uv 0 = Inr u" "py_get uv 1 = Inr v"
       "py_get new_tverts_data (tfaces' ! fi ! vi) =
             Inr [rnd (rnd (rnd (of_int (mfaces ! fi)) + u) / ([rnd (rnd (real (fst fr)) / rnd (real (fst r))),
                                rnd (rnd (real (snd fr)) / rnd (real (snd r)))] ! 1)),
                  rnd (v / ([rnd (rnd (real (fst fr)) / rnd (real (fst r))),
                                rnd (rnd (real (snd fr)) / rnd (real (snd r)))] ! 0))]"
    by blast
  from a(4) have b: "py_get new_tverts_data (tfaces' ! fi ! vi) =
             Inr [rnd (rnd (rnd (of_int (mfaces ! fi)) + u) / rnd (rnd (real (snd fr)) / rnd (real (snd r)))),
                  rnd (v / rnd (rnd (real (fst fr)) / rnd (real (fst r))))]" by simp
  from r fr[unfolded len] a(1,2,3) b show ?thesis by blast
qed




lemma positive_with_flat_normal:
  "positive_textures ms \<Longrightarrow> positive_textures (map with_flat_normal ms)"
  by (auto simp: positive_textures_def with_flat_normal_def flat_normal_def height_def width_def
           split: if_splits)

lemma merge_materials_positive:
  assumes "merge_materials rnd sc ms tc tf mf = (ms', Inr res)" "positive_textures ms"
  shows "positive_textures ms'"
proof -
  from merge_materials_Inr[OF assms(1)] have
    "if mixed_normals ms then inject_normals ms = (ms', None) else ms' = ms" by simp
  then have "ms' = ms \<or> ms' = map with_flat_normal ms"
    using inject_normals_None by (auto split: if_splits)
  with assms(2) positive_with_flat_normal show ?thesis by auto
qed

lemma ceil_log2_ge: "n \<le> 2 ^ ceil_log2 n"
proof (induction n rule: ceil_log2.induct)
  case (1 n)
  show ?case
  proof (cases "n \<le> 1")
    case True
    then show ?thesis by (simp add: ceil_log2.simps[of n])
  next
    case False
    with 1 have "(n + 1) div 2 \<le> 2 ^ ceil_log2 ((n + 1) div 2)" by simp
    then have "n \<le> 2 * 2 ^ ceil_log2 ((n + 1) div 2)" by linarith
    with False show ?thesis by (simp add: ceil_log2.simps[of n])
  qed
qed

lemma pot_ceil_ge: "pot_ceil n = Inr p \<Longrightarrow> n \<le> p"
  by (auto simp: pot_ceil_def ceil_log2_ge split: if_splits)

lemma pot_ceil_pos: "pot_ceil n = Inr p \<Longrightarrow> 0 < n \<and> 0 < p"
  by (auto simp: pot_ceil_def split: if_splits)

lemma pot_ceil_error: "pot_ceil n = Inl e \<Longrightarrow> e = ValueError \<and> n = 0"
  by (auto simp: pot_ceil_def split: if_splits)

lemma compute_full_res_error: "compute_full_res r m = Inl e \<Longrightarrow> e = ValueError"
  by (auto simp: compute_full_res_def split: sum.splits dest: pot_ceil_error)

lemma compute_full_res_Inr:
  assumes "compute_full_res r m = Inr fr"
  shows "0 < fst r" "0 < snd r * m" "0 < fst fr" "0 < snd fr"
    "fst r \<le> fst fr" "snd r * m \<le> snd fr"
    "pot_ceil (fst r) = Inr (fst fr)" "pot_ceil (snd r * m) = Inr (snd fr)"
proof -
  from assms have a: "pot_ceil (fst r) = Inr (fst fr)" and b: "pot_ceil (snd r * m) = Inr (snd fr)"
    by (auto simp: compute_full_res_def split: sum.splits)
  from a b show "pot_ceil (fst r) = Inr (fst fr)" "pot_ceil (snd r * m) = Inr (snd fr)" .
  from pot_ceil_pos[OF a] pot_ceil_pos[OF b] pot_ceil_ge[OF a] pot_ceil_ge[OF b]
  show "0 < fst r" "0 < snd r * m" "0 < fst fr" "0 < snd fr"
    "fst r \<le> fst fr" "snd r * m \<le> snd fr" by simp_all
qed


lemma interval_shift:
  fixes u s i :: real
  assumes "0 < s"
  shows "(i / s \<le> (i + u) / s \<and> (i + u) / s < (i + 1) / s) = (0 \<le> u \<and> u < 1)"
  using assms by (simp add: divide_le_cancel divide_less_cancel)

lemma tex_res_slot: "tex_res m tex = Inr q \<Longrightarrow> q = slot_res m tex"
  by (auto simp: tex_res_def slot_res_def split: option.splits mtl_value.splits)

lemma slot_res_with_flat_normal: "slot_res (with_flat_normal m) tex = slot_res m tex"
  by (auto simp: slot_res_def with_flat_normal_def flat_normal_def getRes_def height_def width_def
           split: option.splits mtl_value.splits)

lemma Max_insert_max:
  fixes x y :: nat
  assumes "finite F"
  shows "Max (insert (max x y) F) = Max (insert x (insert y F))"
  using assms by (cases "F = {}") (simp_all add: max.assoc)

lemma max_res_loop_Some_Max:
  assumes "max_res_loop (Some a) xs = Inr (Some r)"
  shows "fst r = Max (insert (fst a) ((\<lambda>(m, t). fst (slot_res m t)) ` set xs))
       \<and> snd r = Max (insert (snd a) ((\<lambda>(m, t). snd (slot_res m t)) ` set xs))"
  using assms
proof (induction xs arbitrary: a)
  case Nil
  then show ?case by simp
next
  case (Cons x xs)
  obtain m t where x: "x = (m, t)" by (cases x)
  from Cons.prems obtain q where q: "tex_res m t = Inr q"
    and rest: "max_res_loop (Some (np_maximum a q)) xs = Inr (Some r)"
    by (auto simp: x split: sum.splits)
  have qs: "q = slot_res m t" using tex_res_slot[OF q] .
  note ih = Cons.IH[OF rest]
  show ?case using ih
    by (simp add: x qs np_maximum_def Max_insert_max)
qed

lemma max_res_loop_None_Max:
  assumes "max_res_loop None xs = Inr (Some r)"
  shows "fst r = Max ((\<lambda>(m, t). fst (slot_res m t)) ` set xs)
       \<and> snd r = Max ((\<lambda>(m, t). snd (slot_res m t)) ` set xs)"
proof (cases xs)
  case Nil
  with assms show ?thesis by simp
next
  case (Cons x ys)
  obtain m t where x: "x = (m, t)" by (cases x)
  from assms obtain q where q: "tex_res m t = Inr q"
    and rest: "max_res_loop (Some q) ys = Inr (Some r)"
    by (auto simp: Cons x split: sum.splits)
  have qs: "q = slot_res m t" using tex_res_slot[OF q] .
  from max_res_loop_Some_Max[OF rest] show ?thesis
    by (simp add: Cons x qs)
qed

lemma slot_set_fst:
  "(\<lambda>(m, t). f (slot_res m t)) ` set (List.product ms texs)
     = {f (slot_res m tex) | m tex. m \<in> set ms \<and> tex \<in> set texs}"
  by auto

lemma slot_set_flat:
  "{f (slot_res m tex) | m tex. m \<in> set (map with_flat_normal ms) \<and> tex \<in> set texs}
     = {f (slot_res m tex) | m tex. m \<in> set ms \<and> tex \<in> set texs}"
proof (intro set_eqI iffI)
  fix x assume "x \<in> {f (slot_res m tex) | m tex. m \<in> set (map with_flat_normal ms) \<and> tex \<in> set texs}"
  then obtain m tex where "m \<in> set ms" "tex \<in> set texs" "x = f (slot_res (with_flat_normal m) tex)"
    by auto
  then show "x \<in> {f (slot_res m tex) | m tex. m \<in> set ms \<and> tex \<in> set texs}"
    unfolding slot_res_with_flat_normal by blast
next
  fix x assume "x \<in> {f (slot_res m tex) | m tex. m \<in> set ms \<and> tex \<in> set texs}"
  then obtain m tex where m: "m \<in> set ms" "tex \<in> set texs" and x: "x = f (slot_res m tex)"
    by auto
  from m(1) have "with_flat_normal m \<in> set (map with_flat_normal ms)" by simp
  moreover have "x = f (slot_res (with_flat_normal m) tex)"
    using x by (simp add: slot_res_with_flat_normal)
  ultimately show "x \<in> {f (slot_res m tex) | m tex. m \<in> set (map with_flat_normal ms) \<and> tex \<in> set texs}"
    using m(2) by blast
qed

lemma ceil_log2_ceillog2: "ceil_log2 n = ceillog2 n"
proof (induction n rule: ceil_log2.induct)
  case (1 n)
  show ?case
  proof (cases "n \<le> 1")
    case True
    then show ?thesis by (simp add: ceil_log2.simps[of n])
  next
    case False
    with 1 have "ceil_log2 ((n + 1) div 2) = ceillog2 ((n + 1) div 2)" by simp
    with False show ?thesis
      by (simp add: ceil_log2.simps[of n] ceillog2_rec[of n])
  qed
qed

lemma pot_ceil_log: "0 < n \<Longrightarrow> pot_ceil n = Inr (2 ^ nat \<lceil>log 2 (real n)\<rceil>)"
  by (simp add: pot_ceil_def ceil_log2_ceillog2 ceillog2_def)

lemma pot_ceil_least: "pot_ceil n = Inr p \<Longrightarrow> n \<le> 2 ^ k \<Longrightarrow> p \<le> 2 ^ k"
  by (auto simp: pot_ceil_def ceil_log2_ceillog2 ceillog2_le_iff split: if_splits)

lemma compute_full_res_log:
  "0 < fst r \<Longrightarrow> 0 < snd r * m \<Longrightarrow>
     compute_full_res r m
       = Inr (2 ^ nat \<lceil>log 2 (real (fst r))\<rceil>, 2 ^ nat \<lceil>log 2 (real (snd r * m))\<rceil>)"
  by (simp add: compute_full_res_def pot_ceil_log)

lemma scaled_cells_Inr:
  "scaled_cells sc r tex ms = Inr cells \<Longrightarrow>
     length cells = length ms
     \<and> (\<forall>i<length ms. \<exists>t. (ms ! i) tex = Some (Tex t) \<and> cells ! i = sc (data t) r)"
proof (induction ms arbitrary: cells)
  case Nil
  then show ?case by simp
next
  case (Cons m ms)
  from Cons.prems obtain t cs where t: "get_texture m tex = Inr t"
    and cs: "scaled_cells sc r tex ms = Inr cs" and c: "cells = sc (data t) r # cs"
    by (auto split: sum.splits)
  from t have mt: "m tex = Some (Tex t)"
    by (auto simp: get_texture_def split: option.splits mtl_value.splits)
  from Cons.IH[OF cs] have ih: "length cs = length ms"
    "\<forall>i<length ms. \<exists>t. (ms ! i) tex = Some (Tex t) \<and> cs ! i = sc (data t) r" by simp_all
  have "\<exists>t. ((m # ms) ! i) tex = Some (Tex t) \<and> cells ! i = sc (data t) r" if "i < length (m # ms)" for i
  proof (cases i)
    case 0
    with mt c show ?thesis by simp
  next
    case (Suc j)
    with that ih(2) c show ?thesis by simp
  qed
  with ih(1) c show ?case by simp
qed

lemma torch_cat_shape:
  assumes "torch_cat cells = Inr x"
      and "\<forall>c\<in>set cells. length c = H \<and> (\<forall>row\<in>set c. length row = W)"
  shows "length x = H \<and> (\<forall>row\<in>set x. length row = W * length cells)"
proof -
  from assms(1) obtain i0 rest where cells: "cells = i0 # rest"
    and x: "x = map (\<lambda>y. concat (map (\<lambda>i. i ! y) cells)) [0..<height i0]"
    by (auto simp: torch_cat_def split: list.splits if_splits)
  have h0: "height i0 = H" using assms(2) by (simp add: cells height_def)
  have row: "length (concat (map (\<lambda>i. i ! y) cells)) = W * length cells" if "y < H" for y
  proof -
    have "\<forall>c\<in>set cells. length (c ! y) = W"
      using assms(2) that by (metis nth_mem)
    then have "map length (map (\<lambda>i. i ! y) cells) = replicate (length cells) W"
      by (induction cells) auto
    then show ?thesis
      by (simp add: length_concat sum_list_replicate del: map_map)
  qed
  from x h0 row show ?thesis by auto
qed

lemma upscale_replicate_res:
  assumes "length x = H" "0 < H" "\<forall>row\<in>set x. length row = W" "H \<le> fst fr" "W \<le> snd fr"
  shows "getRes (Texture2D (upscale_replicate x fr) []) = fr"
proof -
  from assms(1,2) obtain r0 rs where x: "x = r0 # rs" by (cases x) auto
  have "length r0 = W" using assms(3) x by simp
  then show ?thesis
    using assms(1,4,5) x
    by (auto simp: upscale_replicate_def getRes_def height_def width_def Let_def prod_eq_iff)
qed

lemma combine_textures_res:
  assumes "combine_textures sc ms r fr u texs = Inr uber"
      and "scales_to_size sc" "ms \<noteq> []" "0 < fst r" "fst r \<le> fst fr" "snd r * length ms \<le> snd fr"
      and "uber tex = Some (Tex t)"
  shows "u tex = Some (Tex t) \<or> (tex \<in> set texs \<and> getRes t = fr)"
  using assms(1,7)
proof (induction texs arbitrary: u)
  case Nil
  then show ?case by simp
next
  case (Cons tx texs)
  show ?case
  proof (cases "hd ms tx \<noteq> None")
    case False
    with Cons.prems have "combine_textures sc ms r fr u texs = Inr uber" by simp
    from Cons.IH[OF this Cons.prems(2)] show ?thesis by auto
  next
    case True
    with Cons.prems(1) obtain cells x where
      cells: "scaled_cells sc r tx ms = Inr cells" and cat: "torch_cat cells = Inr x" and
      rest: "combine_textures sc ms r fr (u(tx \<mapsto> Tex (Texture2D (upscale_replicate x fr) []))) texs
               = Inr uber"
      by (auto split: sum.splits)
    from scaled_cells_Inr[OF cells] have len: "length cells = length ms"
      and each: "\<forall>i<length ms. \<exists>t. (ms ! i) tx = Some (Tex t) \<and> cells ! i = sc (data t) r" by simp_all
    have shape: "\<forall>c\<in>set cells. length c = fst r \<and> (\<forall>row\<in>set c. length row = snd r)"
    proof
      fix c assume "c \<in> set cells"
      then obtain i where "i < length cells" "c = cells ! i" by (metis in_set_conv_nth)
      with each len obtain t where "c = sc (data t) r" by auto
      with assms(2) show "length c = fst r \<and> (\<forall>row\<in>set c. length row = snd r)"
        unfolding scales_to_size_def by blast
    qed
    from torch_cat_shape[OF cat shape] have xs: "length x = fst r"
      "\<forall>row\<in>set x. length row = snd r * length cells" by simp_all
    have res: "getRes (Texture2D (upscale_replicate x fr) []) = fr"
      using upscale_replicate_res[OF xs(1) assms(4) xs(2) assms(5)] assms(6) len by simp
    from Cons.IH[OF rest Cons.prems(2)] show ?thesis
      using res by (auto split: if_splits)
  qed
qed

lemma nearest_scale_size: "scales_to_size nearest_scale"
  by (simp add: scales_to_size_def nearest_scale_def)


lemma ex_merge_mixed:
  "\<exists>uber. merge_materials exact nearest_scale [ex_plain, ex_bumpy] [[0, 0], [1, 0], [0, 1]]
       [[0, 1, 2], [0, 1, 2]] [0, 1]
     = ([ex_plain(''normal'' \<mapsto> Tex flat_normal), ex_bumpy],
        Inr (uber, [[0, 0], [1 / 2, 0], [0, 1], [1 / 2, 0], [1, 0], [1 / 2, 1]],
             [[0, 1, 2], [3, 4, 5]]))
     \<and> uber ''normal'' = Some (Tex (Texture2D [[[0, 0, 1], [0, 0, 1], [0, 0, 1], [0, 1, 0]]] []))"
  by (simp add: eval_defs)

lemma inject_normals_error:
  "inject_normals ms = (ms', Some e) \<Longrightarrow> e = KeyError \<or> e = AttributeError"
  by (induction ms arbitrary: ms')
     (auto split: if_splits option.splits mtl_value.splits prod.splits)

lemma inject_normals_each:
  "inject_normals ms = (ms', e) \<Longrightarrow> i < length ms \<Longrightarrow>
     ms' ! i = ms ! i \<or> ms' ! i = with_flat_normal (ms ! i)"
proof (induction ms arbitrary: ms' i)
  case Nil
  then show ?case by simp
next
  case (Cons m ms)
  show ?case
  proof (cases i)
    case 0
    with Cons.prems show ?thesis
      by (auto simp: with_flat_normal_def split: if_splits option.splits mtl_value.splits prod.splits)
  next
    case (Suc j)
    with Cons.prems have j: "j < length ms" by simp
    from Cons.prems(1) show ?thesis
      using Cons.IH[OF _ j] Suc
      by (auto split: if_splits option.splits mtl_value.splits prod.splits)
  qed
qed

lemma max_res_loop_error: "max_res_loop acc xs = Inl e \<Longrightarrow> e = AttributeError"
  by (induction acc xs rule: max_res_loop.induct)
     (auto simp: tex_res_def split: sum.splits option.splits mtl_value.splits)

lemma scaled_cells_error:
  "scaled_cells sc r tex ms = Inl e \<Longrightarrow> e = KeyError \<or> e = AttributeError"
  by (induction ms)
     (auto simp: get_texture_def split: sum.splits option.splits mtl_value.splits)

lemma torch_cat_error: "torch_cat cells = Inl e \<Longrightarrow> e = RuntimeError"
  by (auto simp: torch_cat_def split: list.splits if_splits)

lemma combine_textures_error:
  "combine_textures sc ms r fr u texs = Inl e \<Longrightarrow>
     e = KeyError \<or> e = AttributeError \<or> e = RuntimeError"
proof (induction texs arbitrary: u)
  case Nil
  then show ?case by simp
next
  case (Cons tx texs)
  then show ?case
    by (auto split: if_splits sum.splits dest: scaled_cells_error torch_cat_error)
qed

lemma rewrite_corner_error: "rewrite_corner rnd s tc mi sr vi = Inl e \<Longrightarrow> e = IndexError"
  by (auto simp: rewrite_corner_def py_get_def Let_def
           split: prod.splits sum.splits option.splits if_splits)

lemma rewrite_corners_error: "rewrite_corners rnd s tc mi sr vis = Inl e \<Longrightarrow> e = IndexError"
  by (induction vis arbitrary: sr) (auto split: sum.splits dest: rewrite_corner_error)

lemma rewrite_faces_error: "rewrite_faces rnd s tc st tf mf = Inl e \<Longrightarrow> e = IndexError"
  by (induction rnd s tc st tf mf rule: rewrite_faces.induct)
     (auto simp del: rewrite_corners.simps split: sum.splits prod.splits dest: rewrite_corners_error)

lemma rewrite_texcoords_error: "rewrite_texcoords rnd s tc tf mf = Inl e \<Longrightarrow> e = IndexError"
  by (auto simp: rewrite_texcoords_def split: sum.splits prod.splits dest: rewrite_faces_error)

lemma merge_checked_assertion:
  assumes "merge_checked rnd sc ms tc tf mf = Inl (AssertionError s)"
  shows "check_materials (hd ms) ms = Some (AssertionError s)"
proof (cases "check_materials (hd ms) ms")
  case (Some e)
  with assms show ?thesis by (simp add: merge_checked_def)
next
  case None
  with assms show ?thesis
    unfolding merge_checked_def Let_def
    by (auto split: option.splits sum.splits prod.splits
             dest: max_res_loop_error compute_full_res_error combine_textures_error
                   rewrite_texcoords_error)
qed

lemma merge_checked_not_normal_error:
  assumes "\<forall>m\<in>set ms. (m ''normal'' \<noteq> None) = (hd ms ''normal'' \<noteq> None)"
  shows "merge_checked rnd sc ms tc tf mf \<noteq> Inl (AssertionError normal_message)"
  using merge_checked_assertion[of rnd sc ms tc tf mf normal_message]
    check_materials_normal[of ms "hd ms"] assms by auto

lemma unmixed_uniform:
  assumes "\<not> mixed_normals ms" "ms \<noteq> []"
  shows "\<forall>m\<in>set ms. (m ''normal'' \<noteq> None) = (hd ms ''normal'' \<noteq> None)"
proof -
  have hd: "hd ms \<in> set ms" using assms(2) by simp
  show ?thesis
  proof
    fix m assume m: "m \<in> set ms"
    show "(m ''normal'' \<noteq> None) = (hd ms ''normal'' \<noteq> None)"
    proof (rule ccontr)
      assume "(m ''normal'' \<noteq> None) \<noteq> (hd ms ''normal'' \<noteq> None)"
      then have "(m ''normal'' \<noteq> None \<and> hd ms ''normal'' = None)
               \<or> (m ''normal'' = None \<and> hd ms ''normal'' \<noteq> None)" by auto
      with m hd have "mixed_normals ms"
        unfolding mixed_normals_def list_ex_iff by blast
      with assms(1) show False by simp
    qed
  qed
qed

lemma merge_never_normal_error:
  "snd (merge_materials rnd sc ms tc tf mf) \<noteq> Inl (AssertionError normal_message)"
proof (cases "ms = []")
  case True
  then show ?thesis by (simp add: merge_materials_empty normal_message_def)
next
  case ne: False
  show ?thesis
  proof (cases "mixed_normals ms")
    case False
    from merge_checked_not_normal_error[OF unmixed_uniform[OF False ne]] show ?thesis
      by (simp add: merge_materials_unmixed[OF ne False])
  next
    case True
    obtain ms' e where inj: "inject_normals ms = (ms', e)" by (cases "inject_normals ms")
    show ?thesis
    proof (cases e)
      case (Some err)
      with inject_normals_error[of ms ms' err] inj show ?thesis
        by (auto simp: merge_materials_mixed[OF ne True])
    next
      case None
      with inj have "ms' = map with_flat_normal ms" by (simp add: inject_normals_None)
      then have "\<forall>m\<in>set ms'. (m ''normal'' \<noteq> None) = (hd ms' ''normal'' \<noteq> None)"
        using ne by (auto simp: with_flat_normal_def hd_map)
      from merge_checked_not_normal_error[OF this] None inj show ?thesis
        by (simp add: merge_materials_mixed[OF ne True])
    qed
  qed
qed

lemma combine_textures_other:
  "combine_textures sc ms r fr u texs = Inr uber \<Longrightarrow> tex \<notin> set texs \<Longrightarrow> uber tex = u tex"
proof (induction texs arbitrary: u)
  case Nil
  then show ?case by simp
next
  case (Cons tx texs)
  from Cons.prems(2) have ne: "tex \<noteq> tx" and nin: "tex \<notin> set texs" by auto
  from Cons.prems(1) show ?case
    using Cons.IH[OF _ nin] ne
    by (auto split: if_splits sum.splits)
qed

lemma combine_textures_slot:
  assumes "combine_textures sc ms r fr u texs = Inr uber"
      and "tex \<in> set texs" "distinct texs" "hd ms tex \<noteq> None"
  shows "\<exists>cells x. scaled_cells sc r tex ms = Inr cells \<and> torch_cat cells = Inr x
           \<and> uber tex = Some (Tex (Texture2D (upscale_replicate x fr) []))"
  using assms(1,2,3)
proof (induction texs arbitrary: u)
  case Nil
  then show ?case by simp
next
  case (Cons tx texs)
  show ?case
  proof (cases "tex = tx")
    case True
    with Cons.prems(1) assms(4) obtain cells x where
      cells: "scaled_cells sc r tex ms = Inr cells" and cat: "torch_cat cells = Inr x" and
      rest: "combine_textures sc ms r fr (u(tex \<mapsto> Tex (Texture2D (upscale_replicate x fr) []))) texs
               = Inr uber"
      by (auto split: sum.splits)
    from Cons.prems(3) True have "tex \<notin> set texs" by simp
    from combine_textures_other[OF rest this] cells cat show ?thesis by simp
  next
    case False
    with Cons.prems(2) have mem: "tex \<in> set texs" by simp
    from Cons.prems(3) have d: "distinct texs" by simp
    from Cons.prems(1) show ?thesis
      using Cons.IH[OF _ mem d]
      by (auto split: if_splits sum.splits)
  qed
qed

lemma merge_materials_fst:
  "length (fst (merge_materials rnd sc ms tc tf mf)) = length ms
   \<and> (\<forall>i<length ms. fst (merge_materials rnd sc ms tc tf mf) ! i = ms ! i
          \<or> fst (merge_materials rnd sc ms tc tf mf) ! i = with_flat_normal (ms ! i))
   \<and> (\<not> mixed_normals ms \<longrightarrow> fst (merge_materials rnd sc ms tc tf mf) = ms)
   \<and> (mixed_normals ms \<longrightarrow> (\<forall>res. snd (merge_materials rnd sc ms tc tf mf) = Inr res \<longrightarrow>
          fst (merge_materials rnd sc ms tc tf mf) = map with_flat_normal ms))"
proof (cases "ms = []")
  case True
  then show ?thesis by (simp add: merge_materials_empty)
next
  case ne: False
  show ?thesis
  proof (cases "mixed_normals ms")
    case False
    then show ?thesis by (simp add: merge_materials_unmixed[OF ne False])
  next
    case True
    obtain ms' e where inj: "inject_normals ms = (ms', e)" by (cases "inject_normals ms")
    have f: "fst (merge_materials rnd sc ms tc tf mf) = ms'"
      using inj by (simp add: merge_materials_mixed[OF ne True] split: option.splits)
    have s: "snd (merge_materials rnd sc ms tc tf mf) = Inr res \<Longrightarrow> e = None" for res
      using inj by (auto simp: merge_materials_mixed[OF ne True] split: option.splits)
    have "ms' = map with_flat_normal ms" if "snd (merge_materials rnd sc ms tc tf mf) = Inr res" for res
      using s[OF that] inj inject_normals_None by simp
    with True f inject_normals_length[OF inj] inject_normals_each[OF inj] show ?thesis
      by auto
  qed
qed

lemma merge_mixed_result:
  assumes mixed: "mixed_normals ms"
      and kd: "\<forall>m\<in>set ms. m ''normal'' = None \<longrightarrow> (\<exists>t. m ''kd'' = Some (Tex t))"
  shows "fst (merge_materials rnd sc ms tc tf mf) = map with_flat_normal ms"
    and "\<forall>m\<in>set ms. m ''normal'' = None \<longrightarrow>
            with_flat_normal m ''normal'' = Some (Tex (Texture2D [[[0, 0, 1]]] []))"
    and "snd (merge_materials rnd sc ms tc tf mf) = Inr (uber, d, tf') \<Longrightarrow>
           \<exists>max_res full_res cells x.
                max_res_loop None (List.product (map with_flat_normal ms) textures) = Inr (Some max_res)
              \<and> compute_full_res max_res (length ms) = Inr full_res
              \<and> length cells = length ms
              \<and> (\<forall>i<length ms. \<exists>t. with_flat_normal (ms ! i) ''normal'' = Some (Tex t)
                                    \<and> cells ! i = sc (data t) max_res)
              \<and> torch_cat cells = Inr x
              \<and> uber ''normal'' = Some (Tex (Texture2D (upscale_replicate x full_res) []))"
proof -
  let ?ms = "map with_flat_normal ms"
  have ne: "ms \<noteq> []" using mixed by (auto simp: mixed_normals_def)
  have mm: "merge_materials rnd sc ms tc tf mf = (?ms, merge_checked rnd sc ?ms tc tf mf)"
    using inject_normals_ok[OF kd] by (simp add: merge_materials_mixed[OF ne mixed])
  show "fst (merge_materials rnd sc ms tc tf mf) = ?ms" by (simp add: mm)
  show "\<forall>m\<in>set ms. m ''normal'' = None \<longrightarrow>
          with_flat_normal m ''normal'' = Some (Tex (Texture2D [[[0, 0, 1]]] []))"
    by (simp add: with_flat_normal_def flat_normal_def)
  assume r: "snd (merge_materials rnd sc ms tc tf mf) = Inr (uber, d, tf')"
  from r mm have mc: "merge_checked rnd sc ?ms tc tf mf = Inr (uber, d, tf')" by simp
  from merge_checked_Inr[OF mc] obtain bsdf max_res full_res where
    mr: "max_res_loop None (List.product ?ms textures) = Inr (Some max_res)" and
    fr: "compute_full_res max_res (length ?ms) = Inr full_res" and
    comb: "combine_textures sc ?ms max_res full_res
             [''name'' \<mapsto> Str ''uber_material'', ''bsdf'' \<mapsto> bsdf] textures = Inr uber"
    by blast
  have hdn: "hd ?ms ''normal'' \<noteq> None"
    using ne by (simp add: hd_map with_flat_normal_def)
  have tx: "''normal'' \<in> set textures" "distinct textures" by (simp_all add: textures_def)
  from combine_textures_slot[OF comb tx hdn] obtain cells x where
    cells: "scaled_cells sc max_res ''normal'' ?ms = Inr cells" and cat: "torch_cat cells = Inr x"
    and u: "uber ''normal'' = Some (Tex (Texture2D (upscale_replicate x full_res) []))"
    by blast
  have fr': "compute_full_res max_res (length ms) = Inr full_res" using fr by simp
  from scaled_cells_Inr[OF cells] have "length cells = length ms"
    "\<forall>i<length ms. \<exists>t. with_flat_normal (ms ! i) ''normal'' = Some (Tex t)
                                \<and> cells ! i = sc (data t) max_res"
    by simp_all
  with mr fr' cat u show "\<exists>max_res full_res cells x.
                max_res_loop None (List.product (map with_flat_normal ms) textures) = Inr (Some max_res)
              \<and> compute_full_res max_res (length ms) = Inr full_res
              \<and> length cells = length ms
              \<and> (\<forall>i<length ms. \<exists>t. with_flat_normal (ms ! i) ''normal'' = Some (Tex t)
                                    \<and> cells ! i = sc (data t) max_res)
              \<and> torch_cat cells = Inr x
              \<and> uber ''normal'' = Some (Tex (Texture2D (upscale_replicate x full_res) []))"
    by blast
qed

lemma ex_mixed: "mixed_normals [ex_plain, ex_bumpy]"
  by (simp add: mixed_normals_def ex_plain_def ex_bumpy_def)

lemma ex_kd: "\<forall>m\<in>set [ex_plain, ex_bumpy]. m ''normal'' = None \<longrightarrow> (\<exists>t. m ''kd'' = Some (Tex t))"
  by (simp add: ex_plain_def ex_bumpy_def)





























lemma concat_cell:
  "\<forall>c\<in>set cs. length c = W \<Longrightarrow> i < length cs \<Longrightarrow>
     take W (drop (i * W) (concat cs @ pad)) = cs ! i"
proof (induction cs arbitrary: i)
  case Nil
  then show ?case by simp
next
  case (Cons c cs)
  from Cons.prems(1) have lc: "length c = W" and rest: "\<forall>c\<in>set cs. length c = W" by simp_all
  show ?case
  proof (cases i)
    case 0
    with lc show ?thesis by simp
  next
    case (Suc j)
    with Cons.prems(2) have j: "j < length cs" by simp
    have "drop (Suc j * W) (concat (c # cs) @ pad) = drop (j * W) (concat cs @ pad)"
      using lc by simp
    with Cons.IH[OF rest j] Suc show ?thesis by simp
  qed
qed

lemma torch_cat_rows:
  assumes "torch_cat cells = Inr x"
      and "\<forall>c\<in>set cells. length c = H"
  shows "length x = H \<and> (\<forall>y<H. x ! y = concat (map (\<lambda>c. c ! y) cells))"
proof -
  from assms(1) obtain i0 rest where cells: "cells = i0 # rest"
    and x: "x = map (\<lambda>y. concat (map (\<lambda>i. i ! y) cells)) [0..<height i0]"
    by (auto simp: torch_cat_def split: list.splits if_splits)
  have h0: "height i0 = H" using assms(2) by (simp add: cells height_def)
  from x h0 show ?thesis by simp
qed

lemma upscale_replicate_rows:
  assumes "length x = H" "H \<le> fst fr"
  shows "take H (upscale_replicate x fr)
           = map (\<lambda>row. row @ replicate (snd fr - length row) (last row)) x"
  using assms by (simp add: upscale_replicate_def Let_def)

lemma atlas_cell_cat:
  assumes cat: "torch_cat cells = Inr x"
      and shape: "\<forall>c\<in>set cells. length c = H \<and> (\<forall>row\<in>set c. length row = W)"
      and fr: "H \<le> fst fr"
      and i: "i < length cells"
  shows "atlas_cell (upscale_replicate x fr) (H, W) i = cells ! i"
proof -
  from shape have hs: "\<forall>c\<in>set cells. length c = H" by simp
  note tr = torch_cat_rows[OF cat hs]
  from tr have lx: "length x = H" by simp
  have ci: "cells ! i \<in> set cells" using i by simp
  with shape have lci: "length (cells ! i) = H" by simp
  have row: "take W (drop (i * W) (x ! y @ replicate (snd fr - length (x ! y)) (last (x ! y))))
               = cells ! i ! y" if y: "y < H" for y
  proof -
    have xy: "x ! y = concat (map (\<lambda>c. c ! y) cells)" using tr y by simp
    have w: "\<forall>r\<in>set (map (\<lambda>c. c ! y) cells). length r = W"
    proof
      fix r assume "r \<in> set (map (\<lambda>c. c ! y) cells)"
      then obtain c where c: "c \<in> set cells" "r = c ! y" by auto
      with shape have "length c = H" "\<forall>row\<in>set c. length row = W" by simp_all
      with y c(2) show "length r = W" by simp
    qed
    have li: "i < length (map (\<lambda>c. c ! y) cells)" using i by simp
    have e: "map (\<lambda>c. c ! y) cells ! i = cells ! i ! y" using i by simp
    show ?thesis unfolding xy by (rule trans[OF concat_cell[OF w li] e])
  qed
  have "atlas_cell (upscale_replicate x fr) (H, W) i
          = map (\<lambda>row. take W (drop (i * W) (row @ replicate (snd fr - length row) (last row)))) x"
    unfolding atlas_cell_def using upscale_replicate_rows[OF lx fr] by simp
  also have "\<dots> = map (\<lambda>y. take W (drop (i * W) (x ! y @ replicate (snd fr - length (x ! y)) (last (x ! y)))))
                     [0..<H]"
    using lx by (intro nth_equalityI) simp_all
  also have "\<dots> = map (\<lambda>y. cells ! i ! y) [0..<H]"
    using row by simp
  also have "\<dots> = cells ! i"
    using map_nth[of "cells ! i"] lci by simp
  finally show ?thesis .
qed

lemma merge_mixed_cells:
  assumes mixed: "mixed_normals ms"
      and kd: "\<forall>m\<in>set ms. m ''normal'' = None \<longrightarrow> (\<exists>t. m ''kd'' = Some (Tex t))"
      and r: "snd (merge_materials rnd sc ms tc tf mf) = Inr (uber, d, tf')"
  shows "\<exists>max_res full_res t.
           max_res_loop None (List.product (map with_flat_normal ms) textures) = Inr (Some max_res)
         \<and> compute_full_res max_res (length ms) = Inr full_res
         \<and> uber ''normal'' = Some (Tex t)
         \<and> (scales_to_size sc \<longrightarrow>
              getRes t = full_res
            \<and> (\<forall>i<length ms.
                  ((ms ! i) ''normal'' = None \<longrightarrow>
                      atlas_cell (data t) max_res i = sc [[[0, 0, 1]]] max_res)
                \<and> (\<forall>ti. (ms ! i) ''normal'' = Some (Tex ti) \<longrightarrow>
                      atlas_cell (data t) max_res i = sc (data ti) max_res)))"
proof -
  from merge_mixed_result(3)[OF mixed kd r] obtain max_res full_res cells x where
    mr: "max_res_loop None (List.product (map with_flat_normal ms) textures) = Inr (Some max_res)"
    and fr: "compute_full_res max_res (length ms) = Inr full_res"
    and len: "length cells = length ms"
    and each: "\<forall>i<length ms. \<exists>t. with_flat_normal (ms ! i) ''normal'' = Some (Tex t)
                                  \<and> cells ! i = sc (data t) max_res"
    and cat: "torch_cat cells = Inr x"
    and u: "uber ''normal'' = Some (Tex (Texture2D (upscale_replicate x full_res) []))"
    by blast
  let ?t = "Texture2D (upscale_replicate x full_res) []"
  note c = compute_full_res_Inr[OF fr]
  have main: "getRes ?t = full_res
            \<and> (\<forall>i<length ms.
                  ((ms ! i) ''normal'' = None \<longrightarrow>
                      atlas_cell (data ?t) max_res i = sc [[[0, 0, 1]]] max_res)
                \<and> (\<forall>ti. (ms ! i) ''normal'' = Some (Tex ti) \<longrightarrow>
                      atlas_cell (data ?t) max_res i = sc (data ti) max_res))"
    if sz: "scales_to_size sc"
  proof -
    have shape: "\<forall>c\<in>set cells. length c = fst max_res \<and> (\<forall>row\<in>set c. length row = snd max_res)"
    proof
      fix c assume "c \<in> set cells"
      then obtain i where "i < length cells" "c = cells ! i" by (metis in_set_conv_nth)
      with each len obtain t where "c = sc (data t) max_res" by auto
      with sz show "length c = fst max_res \<and> (\<forall>row\<in>set c. length row = snd max_res)"
        unfolding scales_to_size_def by blast
    qed
    from torch_cat_shape[OF cat shape] have xs: "length x = fst max_res"
      "\<forall>row\<in>set x. length row = snd max_res * length cells" by simp_all
    have res: "getRes ?t = full_res"
      using upscale_replicate_res[OF xs(1) c(1) xs(2) c(5)] c(6) len by simp
    have cell: "atlas_cell (upscale_replicate x full_res) max_res i = cells ! i"
      if "i < length ms" for i
      using atlas_cell_cat[OF cat shape c(5), of i] that len by simp
    have a: "atlas_cell (data ?t) max_res i = sc [[[0, 0, 1]]] max_res"
      if i: "i < length ms" and n: "(ms ! i) ''normal'' = None" for i
    proof -
      from each i obtain t where t: "with_flat_normal (ms ! i) ''normal'' = Some (Tex t)"
        "cells ! i = sc (data t) max_res" by blast
      from t(1) n have "t = flat_normal" by (simp add: with_flat_normal_def)
      then have "data t = [[[0, 0, 1]]]" by (simp add: flat_normal_def)
      with cell[OF i] t(2) show ?thesis by simp
    qed
    have b: "atlas_cell (data ?t) max_res i = sc (data ti) max_res"
      if i: "i < length ms" and n: "(ms ! i) ''normal'' = Some (Tex ti)" for i ti
    proof -
      from each i obtain t where t: "with_flat_normal (ms ! i) ''normal'' = Some (Tex t)"
        "cells ! i = sc (data t) max_res" by blast
      from t(1) n have "t = ti" by (simp add: with_flat_normal_def)
      with cell[OF i] t(2) show ?thesis by simp
    qed
    from res a b show ?thesis by blast
  qed
  from mr fr u main show ?thesis by blast
qed

lemma rounding_exact: "rounding exact"
  by (simp add: rounding_def exact_def)

lemma rounding_mono: "rounding rnd \<Longrightarrow> x \<le> y \<Longrightarrow> rnd x \<le> rnd y"
  by (simp add: rounding_def)

lemma rounding_int: "rounding rnd \<Longrightarrow> \<bar>k\<bar> \<le> 2 ^ 53 \<Longrightarrow> rnd (of_int k) = of_int k"
  by (simp add: rounding_def)

lemma rounding_one: "rounding rnd \<Longrightarrow> rnd 1 = 1"
  using rounding_int[of rnd 1] by simp

lemma cell_bounds:
  fixes u s :: real and i :: int
  assumes r: "rounding rnd" and s: "0 < s" and i: "\<bar>i\<bar> < 2 ^ 53"
  shows "0 \<le> u \<and> u \<le> 1 \<longrightarrow>
           rnd (of_int i / s) \<le> rnd (rnd (rnd (of_int i) + u) / s)
         \<and> rnd (rnd (rnd (of_int i) + u) / s) \<le> rnd ((of_int i + 1) / s)"
    and "u \<le> 0 \<longrightarrow> rnd (rnd (rnd (of_int i) + u) / s) \<le> rnd (of_int i / s)"
    and "1 \<le> u \<longrightarrow> rnd ((of_int i + 1) / s) \<le> rnd (rnd (rnd (of_int i) + u) / s)"
proof -
  have ri: "rnd (of_int i) = of_int i" using rounding_int[OF r, of i] i by simp
  have "rnd (of_int (i + 1)) = of_int (i + 1)" using rounding_int[OF r, of "i + 1"] i by simp
  then have ri1: "rnd (of_int i + 1) = of_int i + 1" by simp
  have lo: "of_int i \<le> rnd (of_int i + u)" if "0 \<le> u"
    using rounding_mono[OF r, of "of_int i" "of_int i + u"] that ri by simp
  have lo': "rnd (of_int i + u) \<le> of_int i" if "u \<le> 0"
    using rounding_mono[OF r, of "of_int i + u" "of_int i"] that ri by simp
  have hi: "rnd (of_int i + u) \<le> of_int i + 1" if "u \<le> 1"
    using rounding_mono[OF r, of "of_int i + u" "of_int i + 1"] that ri1 by simp
  have hi': "of_int i + 1 \<le> rnd (of_int i + u)" if "1 \<le> u"
    using rounding_mono[OF r, of "of_int i + 1" "of_int i + u"] that ri1 by simp
  have d: "a / s \<le> b / s" if "a \<le> b" for a b :: real
    using that s by (simp add: divide_right_mono)
  show "0 \<le> u \<and> u \<le> 1 \<longrightarrow>
           rnd (of_int i / s) \<le> rnd (rnd (rnd (of_int i) + u) / s)
         \<and> rnd (rnd (rnd (of_int i) + u) / s) \<le> rnd ((of_int i + 1) / s)"
    unfolding ri using rounding_mono[OF r d[OF lo]] rounding_mono[OF r d[OF hi]] by blast
  show "u \<le> 0 \<longrightarrow> rnd (rnd (rnd (of_int i) + u) / s) \<le> rnd (of_int i / s)"
    unfolding ri using rounding_mono[OF r d[OF lo']] by blast
  show "1 \<le> u \<longrightarrow> rnd ((of_int i + 1) / s) \<le> rnd (rnd (rnd (of_int i) + u) / s)"
    unfolding ri using rounding_mono[OF r d[OF hi']] by blast
qed

lemma rounding_nat:
  assumes r: "rounding rnd" and "0 < a" "a \<le> b"
  shows "1 \<le> rnd (real a)" and "rnd (real a) \<le> rnd (real b)"
proof -
  have "1 \<le> real a" using assms(2) by simp
  from rounding_mono[OF r this] rounding_one[OF r] show "1 \<le> rnd (real a)" by simp
  have "real a \<le> real b" using assms(3) by simp
  from rounding_mono[OF r this] show "rnd (real a) \<le> rnd (real b)" .
qed

lemma s_coeff_ge_1:
  assumes r: "rounding rnd" and "0 < a" "a \<le> b"
  shows "1 \<le> rnd (rnd (real b) / rnd (real a))"
proof -
  note n = rounding_nat[OF assms]
  from n have "1 \<le> rnd (real b) / rnd (real a)" by simp
  from rounding_mono[OF r this] rounding_one[OF r] show ?thesis by simp
qed

lemma merge_s_coeff:
  assumes "merge_materials rnd scale_img materials texcoords tfaces mfaces
             = (materials', Inr res)"
      and "max_res_loop None (List.product materials' textures) = Inr (Some max_res)"
      and "compute_full_res max_res (length materials) = Inr full_res"
      and "rounding rnd"
  shows "1 \<le> rnd (rnd (real (snd full_res)) / rnd (real (snd max_res)))"
    and "1 \<le> rnd (rnd (real (fst full_res)) / rnd (real (fst max_res)))"
proof -
  note c = compute_full_res_Inr[OF assms(3)]
  have ne: "materials \<noteq> []" using merge_materials_Inr[OF assms(1)] by simp
  from c(2) have w: "0 < snd max_res" by simp
  have "snd max_res * 1 \<le> snd max_res * length materials"
    using ne by (intro mult_le_mono2) (cases materials, simp_all)
  with c(6) have le: "snd max_res \<le> snd full_res" by linarith
  from s_coeff_ge_1[OF assms(4) w le] show "1 \<le> rnd (rnd (real (snd full_res)) / rnd (real (snd max_res)))" .
  from s_coeff_ge_1[OF assms(4) c(1) c(5)]
  show "1 \<le> rnd (rnd (real (fst full_res)) / rnd (real (fst max_res)))" .
qed

lemma round_even_int: "round_even (of_int k) = k"
  by (simp add: round_even_def)

lemma round_even_lower: "\<lfloor>x\<rfloor> \<le> round_even x"
  by (simp add: round_even_def Let_def)

lemma round_even_upper: "round_even x \<le> \<lfloor>x\<rfloor> + 1"
  by (simp add: round_even_def Let_def)

lemma round_even_mono:
  assumes "x \<le> y"
  shows "round_even x \<le> round_even y"
proof (cases "\<lfloor>x\<rfloor> = \<lfloor>y\<rfloor>")
  case True
  with assms show ?thesis by (auto simp: round_even_def Let_def)
next
  case False
  with floor_mono[OF assms] have "\<lfloor>x\<rfloor> + 1 \<le> \<lfloor>y\<rfloor>" by simp
  with round_even_upper[of x] round_even_lower[of y] show ?thesis by linarith
qed

lemma binade:
  assumes "0 < x"
  shows "2 powr of_int \<lfloor>log 2 x\<rfloor> \<le> x" and "x < 2 powr (of_int \<lfloor>log 2 x\<rfloor> + 1)"
proof -
  have x: "x = 2 powr log 2 x" using assms by simp
  have "2 powr of_int \<lfloor>log 2 x\<rfloor> \<le> 2 powr log 2 x"
    by (rule powr_mono) simp_all
  with x show "2 powr of_int \<lfloor>log 2 x\<rfloor> \<le> x" by simp
  have "log 2 x < of_int \<lfloor>log 2 x\<rfloor> + 1" by linarith
  then have "2 powr log 2 x < 2 powr (of_int \<lfloor>log 2 x\<rfloor> + 1)"
    by (rule powr_less_mono) simp
  with x show "x < 2 powr (of_int \<lfloor>log 2 x\<rfloor> + 1)" by simp
qed

lemma binade_unique:
  assumes "0 < x" "2 powr of_int e \<le> x" "x < 2 powr (of_int e + 1)"
  shows "\<lfloor>log 2 x\<rfloor> = e"
proof (rule floor_unique)
  from assms(1,2) show "of_int e \<le> log 2 x" by (simp add: le_log_iff)
  from assms(1,3) show "log 2 x < of_int e + 1" by (simp add: log_less_iff)
qed

lemma scaled_range:
  assumes "0 < x"
  shows "2 ^ 52 \<le> x / 2 powr of_int (\<lfloor>log 2 x\<rfloor> - 52)"
    and "x / 2 powr of_int (\<lfloor>log 2 x\<rfloor> - 52) < 2 ^ 53"
proof -
  let ?e = "\<lfloor>log 2 x\<rfloor>"
  have p: "(2::real) powr of_int (?e - 52) = 2 powr of_int ?e / 2 ^ 52"
    by (simp add: powr_diff)
  have q: "(2::real) powr (of_int ?e + 1) = 2 powr of_int ?e * 2"
    by (simp add: powr_add)
  have pos: "0 < (2::real) powr of_int ?e" by simp
  from binade(1)[OF assms] pos show "2 ^ 52 \<le> x / 2 powr of_int (?e - 52)"
    unfolding p by (simp add: field_simps)
  from binade(2)[OF assms] pos show "x / 2 powr of_int (?e - 52) < 2 ^ 53"
    unfolding p q by (simp add: field_simps)
qed

lemma round_pos_range:
  assumes "0 < x"
  shows "2 powr of_int \<lfloor>log 2 x\<rfloor> \<le> round_pos x"
    and "round_pos x \<le> 2 powr (of_int \<lfloor>log 2 x\<rfloor> + 1)"
proof -
  let ?e = "\<lfloor>log 2 x\<rfloor>"
  let ?z = "x / 2 powr of_int (?e - 52)"
  have p: "(2::real) powr of_int (?e - 52) = 2 powr of_int ?e / 2 ^ 52"
    by (simp add: powr_diff)
  have q: "(2::real) powr (of_int ?e + 1) = 2 powr of_int ?e * 2"
    by (simp add: powr_add)
  have "round_even (of_int (2 ^ 52)) \<le> round_even ?z"
    using scaled_range(1)[OF assms] by (intro round_even_mono) simp
  then have lo: "(2 ^ 52 :: real) \<le> of_int (round_even ?z)"
    unfolding round_even_int by (metis of_int_le_iff of_int_numeral of_int_power)
  have "round_even ?z \<le> round_even (of_int (2 ^ 53))"
    using scaled_range(2)[OF assms] by (intro round_even_mono) simp
  then have hi: "of_int (round_even ?z) \<le> (2 ^ 53 :: real)"
    unfolding round_even_int by (metis of_int_le_iff of_int_numeral of_int_power)
  have pos: "0 < (2::real) powr of_int ?e" by simp
  from lo pos show "2 powr of_int ?e \<le> round_pos x"
    unfolding round_pos_def p by (simp add: field_simps)
  from hi pos show "round_pos x \<le> 2 powr (of_int ?e + 1)"
    unfolding round_pos_def p q by (simp add: field_simps)
qed

lemma round_pos_positive: "0 < x \<Longrightarrow> 0 < round_pos x"
  using round_pos_range(1)[of x] powr_gt_zero[of 2 "of_int \<lfloor>log 2 x\<rfloor>"] by linarith

lemma round_pos_mono:
  assumes "0 < x" "x \<le> y"
  shows "round_pos x \<le> round_pos y"
proof -
  from assms have y: "0 < y" by simp
  have le: "\<lfloor>log 2 x\<rfloor> \<le> \<lfloor>log 2 y\<rfloor>"
    using assms by (intro floor_mono) simp
  show ?thesis
  proof (cases "\<lfloor>log 2 x\<rfloor> = \<lfloor>log 2 y\<rfloor>")
    case True
    have "x / 2 powr of_int (\<lfloor>log 2 y\<rfloor> - 52) \<le> y / 2 powr of_int (\<lfloor>log 2 y\<rfloor> - 52)"
      using assms(2) by (simp add: divide_right_mono)
    from round_even_mono[OF this] show ?thesis
      unfolding round_pos_def True by (simp add: mult_right_mono)
  next
    case False
    with le have "of_int \<lfloor>log 2 x\<rfloor> + (1::real) \<le> of_int \<lfloor>log 2 y\<rfloor>" by linarith
    then have "2 powr (of_int \<lfloor>log 2 x\<rfloor> + 1) \<le> (2::real) powr of_int \<lfloor>log 2 y\<rfloor>"
      by (rule powr_mono) simp
    with round_pos_range(2)[OF assms(1)] round_pos_range(1)[OF y] show ?thesis by linarith
  qed
qed

lemma binary64_mono:
  assumes "x \<le> y"
  shows "binary64 x \<le> binary64 y"
proof -
  consider "0 < x" | "x = 0" | "x < 0" "0 \<le> y" | "x < 0" "y < 0" by linarith
  then show ?thesis
  proof cases
    case 1
    with assms round_pos_mono[OF 1 assms] show ?thesis by (simp add: binary64_def)
  next
    case 2
    with assms round_pos_positive[of y] show ?thesis
      by (cases "y = 0") (simp_all add: binary64_def less_eq_real_def)
  next
    case 3
    have "binary64 x \<le> 0" using 3(1) round_pos_positive[of "- x"] by (simp add: binary64_def)
    moreover have "0 \<le> binary64 y"
      using 3(2) round_pos_positive[of y] by (cases "y = 0") (simp_all add: binary64_def less_eq_real_def)
    ultimately show ?thesis by simp
  next
    case 4
    then have "0 < - y" "- y \<le> - x" using assms by simp_all
    from round_pos_mono[OF this] 4 show ?thesis by (simp add: binary64_def)
  qed
qed

lemma round_pos_exact:
  assumes "0 < x" "x / 2 powr of_int (\<lfloor>log 2 x\<rfloor> - 52) = of_int n"
  shows "round_pos x = x"
  unfolding round_pos_def assms(2) round_even_int
  using assms(2)[symmetric] by simp

lemma round_pos_int:
  assumes "0 < k" "k \<le> 2 ^ 53"
  shows "round_pos (of_int k) = of_int k"
proof -
  let ?x = "of_int k :: real"
  let ?e = "\<lfloor>log 2 ?x\<rfloor>"
  have x: "0 < ?x" using assms(1) by simp
  have "1 \<le> ?x" using assms(1) by simp
  then have "0 \<le> log 2 ?x" by simp
  then have e0: "0 \<le> ?e" by simp
  have "?x \<le> 2 ^ 53" using assms(2) by (metis of_int_le_iff of_int_numeral of_int_power)
  then have "log 2 ?x \<le> 53" using x by (simp add: log_le_iff powr_realpow[symmetric])
  then have e53: "?e \<le> 53" by (simp add: floor_le_iff)
  show ?thesis
  proof (cases "?e \<le> 52")
    case True
    have "(2::real) powr of_int (?e - 52) = 1 / 2 ^ nat (52 - ?e)"
    proof -
      have "(2::real) powr of_int (?e - 52) = 2 powr (- real (nat (52 - ?e)))" using True by simp
      also have "\<dots> = 1 / 2 ^ nat (52 - ?e)"
        by (simp add: powr_minus powr_realpow inverse_eq_divide)
      finally show ?thesis .
    qed
    then have "?x / 2 powr of_int (?e - 52) = of_int (k * 2 ^ nat (52 - ?e))" by simp
    from round_pos_exact[OF x this] show ?thesis .
  next
    case False
    with e53 have e: "?e = 53" by linarith
    from binade(1)[OF x] have "2 ^ 53 \<le> ?x" by (simp add: e powr_realpow[symmetric])
    with \<open>?x \<le> 2 ^ 53\<close> have xv: "?x = 2 ^ 53" by simp
    have pw: "(2::real) powr of_int (?e - 52) = 2" unfolding e by simp
    have "?x / 2 powr of_int (?e - 52) = ?x / 2" by (simp only: pw)
    also have "\<dots> = of_int (2 ^ 52)" by (simp add: xv)
    finally have "?x / 2 powr of_int (?e - 52) = of_int (2 ^ 52)" .
    from round_pos_exact[OF x this] show ?thesis .
  qed
qed

lemma binary64_int:
  assumes "\<bar>k\<bar> \<le> 2 ^ 53"
  shows "binary64 (of_int k) = of_int k"
proof -
  consider "k = 0" | "0 < k" | "k < 0" by linarith
  then show ?thesis
  proof cases
    case 1
    then show ?thesis by (simp add: binary64_def)
  next
    case 2
    with assms round_pos_int[of k] show ?thesis by (simp add: binary64_def)
  next
    case 3
    with assms round_pos_int[of "- k"] show ?thesis by (simp add: binary64_def)
  qed
qed

lemma rounding_binary64: "rounding binary64"
  unfolding rounding_def using binary64_mono binary64_int by blast

lemma binary64_pos:
  assumes "0 < x" "2 powr of_int e \<le> x" "x < 2 powr (of_int e + 1)"
  shows "binary64 x = of_int (round_even (x / 2 powr of_int (e - 52))) * 2 powr of_int (e - 52)"
  using assms(1) binade_unique[OF assms] by (simp add: binary64_def round_pos_def)

lemma binary64_small: "binary64 0 = 0" "binary64 1 = 1" "binary64 2 = 2"
  using binary64_int[of 0] binary64_int[of 1] binary64_int[of 2] by simp_all

lemma binary64_half: "binary64 (1 / 2) = 1 / 2"
proof -
  have "binary64 (1 / 2) = of_int (round_even ((1 / 2) / 2 powr of_int (- 1 - 52))) * 2 powr of_int (- 1 - 52)"
    by (rule binary64_pos) (simp_all add: powr_minus)
  also have "(1 / 2) / (2::real) powr of_int (- 1 - 52) = of_int (2 ^ 52)"
    by (simp add: powr_minus)
  also have "of_int (round_even (of_int (2 ^ 52))) * (2::real) powr of_int (- 1 - 52) = 1 / 2"
    unfolding round_even_int by (simp add: powr_minus)
  finally show ?thesis .
qed

lemma binary64_tie: "binary64 (2 - 1 / 2 ^ 53) = 2"
proof -
  have "binary64 (2 - 1 / 2 ^ 53)
          = of_int (round_even ((2 - 1 / 2 ^ 53) / 2 powr of_int (0 - 52))) * 2 powr of_int (0 - 52)"
    by (rule binary64_pos) simp_all
  also have "(2 - 1 / 2 ^ 53) / (2::real) powr of_int (0 - 52) = 2 ^ 53 - 1 / 2"
    by (simp add: powr_minus)
  also have "round_even (2 ^ 53 - 1 / 2) = 2 ^ 53"
    by (simp add: round_even_def Let_def)
  also have "of_int (2 ^ 53) * (2::real) powr of_int (0 - 52) = 2"
    by (simp add: powr_minus)
  finally show ?thesis .
qed

lemma binary64_tie_numeral: "binary64 (18014398509481983 / 9007199254740992) = 2"
  using binary64_tie by simp

lemma ex_merge_b64:
  "\<exists>uber. merge_materials binary64 nearest_scale [ex_plain, ex_plain] [[1 - 1 / 2 ^ 53, 0]]
       [[0, 0, 0]] [1]
     = ([ex_plain, ex_plain], Inr (uber, [[1, 0]], [[0, 0, 0]]))"
  by (simp add: eval_defs binary64_small binary64_tie_numeral)

section \<open>Properties of the parser\<close>

lemma take_prefix_iff: "(take (length k) s = k) = (\<exists>b. s = k @ b)"
proof
  assume "take (length k) s = k"
  then have "s = k @ drop (length k) s" by (metis append_take_drop_id)
  then show "\<exists>b. s = k @ b" by blast
next
  assume "\<exists>b. s = k @ b"
  then show "take (length k) s = k" by auto
qed

lemma is_substring_iff: "is_substring k s = (\<exists>a b. s = a @ k @ b)"
proof (induction s)
  case Nil
  show ?case by auto
next
  case (Cons c cs)
  have "(\<exists>a b. c # cs = a @ k @ b) = ((\<exists>b. c # cs = k @ b) \<or> (\<exists>a b. cs = a @ k @ b))"
  proof
    assume "\<exists>a b. c # cs = a @ k @ b"
    then obtain a b where ab: "c # cs = a @ k @ b" by blast
    show "(\<exists>b. c # cs = k @ b) \<or> (\<exists>a b. cs = a @ k @ b)"
    proof (cases a)
      case Nil
      with ab show ?thesis by auto
    next
      case (Cons x a')
      with ab have "cs = a' @ k @ b" by simp
      then show ?thesis by blast
    qed
  next
    assume "(\<exists>b. c # cs = k @ b) \<or> (\<exists>a b. cs = a @ k @ b)"
    then show "\<exists>a b. c # cs = a @ k @ b"
    proof
      assume "\<exists>b. c # cs = k @ b"
      then obtain b where "c # cs = [] @ k @ b" by auto
      then show ?thesis by blast
    next
      assume "\<exists>a b. cs = a @ k @ b"
      then obtain a b where "c # cs = (c # a) @ k @ b" by auto
      then show ?thesis by blast
    qed
  qed
  with Cons show ?case
    by (simp only: is_substring.simps take_prefix_iff)
qed

lemma string_valued_iff:
  "string_valued key = (\<exists>k\<in>set string_keys. \<exists>a b. key = a @ k @ b)"
  by (simp only: string_valued_def list_ex_iff is_substring_iff)

lemma parse_line_key_value:
  assumes "parse_line py_float materials line = Inr materials'"
      and "materials \<noteq> []" and "\<not> is_newmtl line"
  shows "(string_valued (key_of line) \<longrightarrow>
            data_of line \<noteq> []
          \<and> materials' = butlast materials
               @ [(last materials)(key_of line \<mapsto> Str (hd (data_of line)))])
       \<and> (\<not> string_valued (key_of line) \<longrightarrow>
            (\<exists>xs. those (map py_float (data_of line)) = Some xs
                \<and> materials' = butlast materials @ [(last materials)(key_of line \<mapsto> Vec xs)]))"
  using assms
  unfolding parse_line_def is_newmtl_def string_valued_def key_of_def data_of_def Let_def
  by (auto split: list.splits option.splits if_splits)

lemmas parse_defs = parse_line_def strip_def is_space_def is_sep_def lower_def lower_char_def
  string_keys_def key_of_def data_of_def is_newmtl_def string_valued_def stored_value_def
  ex_float_def Let_def

lemma parse_line_no_record:
  "\<not> is_newmtl l \<Longrightarrow> parse_line py_float [] l = Inr []"
  by (simp add: parse_line_def is_newmtl_def key_of_def Let_def)

lemma parse_lines_skip:
  "\<forall>l\<in>set pre. \<not> is_newmtl l \<Longrightarrow>
     parse_lines py_float [] (pre @ rest) = parse_lines py_float [] rest"
  by (induction pre) (simp_all add: parse_line_no_record)

lemma group_lines_skip:
  "\<forall>l\<in>set pre. \<not> is_newmtl l \<Longrightarrow> group_lines [] (pre @ rest) = group_lines [] rest"
  by (induction pre) simp_all

lemma group_lines_length:
  "length (group_lines acc ls) = length acc + length (filter is_newmtl ls)"
proof (induction ls arbitrary: acc)
  case Nil
  show ?case by simp
next
  case (Cons l ls)
  show ?case
  proof (cases "is_newmtl l")
    case True
    then show ?thesis by (simp add: Cons.IH)
  next
    case False
    show ?thesis
    proof (cases "acc = []")
      case True
      with False show ?thesis by (simp add: Cons.IH)
    next
      case ne: False
      then have "length (butlast acc @ [last acc @ [l]]) = length acc"
        by (cases acc rule: rev_cases) simp_all
      with False ne show ?thesis by (simp add: Cons.IH)
    qed
  qed
qed

lemma record_inv_snoc:
  assumes "record_inv ms acc" "g \<noteq> []" "dom m = insert ''name'' (key_of ` set (tl g))"
  shows "record_inv (ms @ [m]) (acc @ [g])"
proof -
  from assms(1) have len: "length ms = length acc"
    and each: "\<forall>i<length ms. acc ! i \<noteq> []
           \<and> dom (ms ! i) = insert ''name'' (key_of ` set (tl (acc ! i)))"
    by (simp_all add: record_inv_def)
  have "(acc @ [g]) ! i \<noteq> []
        \<and> dom ((ms @ [m]) ! i) = insert ''name'' (key_of ` set (tl ((acc @ [g]) ! i)))"
    if "i < length (ms @ [m])" for i
  proof (cases "i < length ms")
    case True
    with each len show ?thesis by (simp add: nth_append)
  next
    case False
    with that have "i = length ms" by simp
    with len assms(2,3) show ?thesis by (simp add: nth_append)
  qed
  with len show ?thesis by (simp add: record_inv_def)
qed

lemma record_inv_butlast:
  assumes "record_inv ms acc" "ms \<noteq> []"
  shows "record_inv (butlast ms) (butlast acc)"
    and "acc \<noteq> []" and "last acc \<noteq> []"
    and "dom (last ms) = insert ''name'' (key_of ` set (tl (last acc)))"
proof -
  from assms(1) have len: "length ms = length acc"
    and each: "\<forall>i<length ms. acc ! i \<noteq> []
           \<and> dom (ms ! i) = insert ''name'' (key_of ` set (tl (acc ! i)))"
    by (simp_all add: record_inv_def)
  from len assms(2) show ne: "acc \<noteq> []" by auto
  have l: "length ms - 1 < length ms" using assms(2) by simp
  from each l have "acc ! (length ms - 1) \<noteq> []
      \<and> dom (ms ! (length ms - 1)) = insert ''name'' (key_of ` set (tl (acc ! (length ms - 1))))"
    by blast
  then show "last acc \<noteq> []" "dom (last ms) = insert ''name'' (key_of ` set (tl (last acc)))"
    using assms(2) ne len by (simp_all add: last_conv_nth)
  show "record_inv (butlast ms) (butlast acc)"
    using len each by (simp add: record_inv_def nth_butlast)
qed

lemma parse_line_inv:
  assumes p: "parse_line py_float ms l = Inr ms'" and inv: "record_inv ms acc"
  shows "record_inv ms'
           (if is_newmtl l then acc @ [[l]]
            else if acc = [] then acc else butlast acc @ [last acc @ [l]])"
proof (cases "is_newmtl l")
  case True
  with p obtain d where "ms' = ms @ [[''name'' \<mapsto> Str d]]"
    by (auto simp: parse_line_def is_newmtl_def key_of_def Let_def split: list.splits)
  moreover have "record_inv (ms @ [[''name'' \<mapsto> Str d]]) (acc @ [[l]])"
    by (rule record_inv_snoc[OF inv]) simp_all
  ultimately show ?thesis using True by simp
next
  case False
  show ?thesis
  proof (cases "ms = []")
    case True
    with inv have "acc = []" by (simp add: record_inv_def)
    moreover from p True False have "ms' = []"
      by (simp add: parse_line_no_record)
    ultimately show ?thesis using False inv True by simp
  next
    case ne: False
    from parse_line_key_value[OF p ne False] obtain v where
      ms': "ms' = butlast ms @ [(last ms)(key_of l \<mapsto> v)]"
      by (cases "string_valued (key_of l)") auto
    note b = record_inv_butlast[OF inv ne]
    have d: "dom ((last ms)(key_of l \<mapsto> v)) = insert ''name'' (key_of ` set (tl (last acc @ [l])))"
      using b(3,4) by (cases "last acc") auto
    have "record_inv (butlast ms @ [(last ms)(key_of l \<mapsto> v)]) (butlast acc @ [last acc @ [l]])"
      by (rule record_inv_snoc[OF b(1) _ d]) simp
    with ms' False b(2) show ?thesis by simp
  qed
qed

lemma parse_lines_inv:
  assumes "parse_lines py_float ms ls = Inr ms'" "record_inv ms acc"
  shows "record_inv ms' (group_lines acc ls)"
  using assms
proof (induction ls arbitrary: ms acc)
  case Nil
  then show ?case by simp
next
  case (Cons l ls)
  from Cons.prems(1) obtain ms1 where p: "parse_line py_float ms l = Inr ms1"
    and r: "parse_lines py_float ms1 ls = Inr ms'"
    by (auto split: sum.splits)
  have g: "group_lines acc (l # ls)
             = group_lines (if is_newmtl l then acc @ [[l]]
                            else if acc = [] then acc else butlast acc @ [last acc @ [l]]) ls"
    by simp
  from Cons.IH[OF r parse_line_inv[OF p Cons.prems(2)]] show ?case
    unfolding g .
qed

lemma record_inv_empty: "record_inv [] []"
  by (simp add: record_inv_def)

lemma groups_ok_step:
  assumes "groups_ok acc"
  shows "groups_ok (if is_newmtl l then acc @ [[l]]
                    else if acc = [] then acc else butlast acc @ [last acc @ [l]])"
proof (cases "is_newmtl l")
  case True
  with assms show ?thesis by (simp add: groups_ok_def)
next
  case False
  show ?thesis
  proof (cases "acc = []")
    case True
    with False assms show ?thesis by simp
  next
    case ne: False
    then obtain bs g where acc: "acc = bs @ [g]" by (cases acc rule: rev_cases) auto
    from assms acc have g: "g \<noteq> []" "is_newmtl (hd g)" "\<forall>l\<in>set (tl g). \<not> is_newmtl l"
      and bs: "groups_ok bs"
      by (simp_all add: groups_ok_def)
    from g False have "(g @ [l]) \<noteq> [] \<and> is_newmtl (hd (g @ [l]))
        \<and> (\<forall>x\<in>set (tl (g @ [l])). \<not> is_newmtl x)"
      by (cases g) auto
    with bs have "groups_ok (bs @ [g @ [l]])" by (simp add: groups_ok_def)
    with False ne acc show ?thesis by simp
  qed
qed

lemma group_lines_ok: "groups_ok acc \<Longrightarrow> groups_ok (group_lines acc ls)"
proof (induction ls arbitrary: acc)
  case Nil
  then show ?case by simp
next
  case (Cons l ls)
  have g: "group_lines acc (l # ls)
             = group_lines (if is_newmtl l then acc @ [[l]]
                            else if acc = [] then acc else butlast acc @ [last acc @ [l]]) ls"
    by simp
  from Cons.IH[OF groups_ok_step[OF Cons.prems]] show ?case unfolding g .
qed

lemma group_lines_concat:
  "concat (group_lines acc ls)
     = concat acc @ (if acc = [] then dropWhile (\<lambda>l. \<not> is_newmtl l) ls else ls)"
proof (induction ls arbitrary: acc)
  case Nil
  show ?case by simp
next
  case (Cons l ls)
  show ?case
  proof (cases "is_newmtl l")
    case True
    then show ?thesis by (simp add: Cons.IH)
  next
    case False
    show ?thesis
    proof (cases "acc = []")
      case True
      with False show ?thesis by (simp add: Cons.IH)
    next
      case ne: False
      then obtain bs g where acc: "acc = bs @ [g]" by (cases acc rule: rev_cases) auto
      with False show ?thesis by (simp add: Cons.IH)
    qed
  qed
qed

lemma convert_materials_length:
  "convert_materials ld srgb path clear ms = Inr mats \<Longrightarrow> length mats = length ms"
  by (induction ms arbitrary: mats) (auto split: sum.splits)

lemma load_mtl_length:
  assumes "load_mtl py_float ld srgb path lines clear = Inr mats"
  shows "length mats = length (filter is_newmtl lines)"
proof -
  from assms obtain ms where p: "parse_lines py_float [] lines = Inr ms"
    and c: "convert_materials ld srgb path clear ms = Inr mats"
    by (auto simp: load_mtl_def split: sum.splits)
  from parse_lines_inv[OF p record_inv_empty] have "length ms = length (group_lines [] lines)"
    by (simp add: record_inv_def)
  with group_lines_length[of "[]" lines] convert_materials_length[OF c] show ?thesis by simp
qed

lemma clear_channel_Inr:
  "clear_channel mip = Inr mip' \<Longrightarrow>
     mip' = map (map (\<lambda>p. 0 # tl p)) mip \<and> (\<forall>row\<in>set mip. \<forall>p\<in>set row. p \<noteq> [])"
  by (auto simp: clear_channel_def list_ex_iff split: if_splits)

lemma clear_mips_Inr:
  "clear_mips mips = Inr mips' \<Longrightarrow>
     mips' = map (map (map (\<lambda>p. 0 # tl p))) mips
     \<and> (\<forall>mip\<in>set mips. \<forall>row\<in>set mip. \<forall>p\<in>set row. p \<noteq> [])"
proof (induction mips arbitrary: mips')
  case Nil
  then show ?case by simp
next
  case (Cons mip mips)
  from Cons.prems obtain m1 ms1 where c: "clear_channel mip = Inr m1"
    and r: "clear_mips mips = Inr ms1" and e: "mips' = m1 # ms1"
    by (auto split: sum.splits)
  from clear_channel_Inr[OF c] Cons.IH[OF r] e show ?case by simp
qed

lemma clear_texture_Inr:
  assumes "clear_texture t0 = Inr t"
  shows "getMips t = map (map (map (\<lambda>p. 0 # tl p))) (getMips t0)"
    and "\<forall>mip\<in>set (getMips t0). \<forall>row\<in>set mip. \<forall>p\<in>set row. p \<noteq> []"
proof -
  from assms obtain mips where c: "clear_mips (getMips t0) = Inr mips"
    and t: "t = Texture2D (hd mips) (tl mips)"
    by (auto simp: clear_texture_def split: sum.splits)
  note m = clear_mips_Inr[OF c]
  from m have "mips \<noteq> []" by (simp add: getMips_def)
  with t have "getMips t = mips" by (simp add: getMips_def)
  with m show "getMips t = map (map (map (\<lambda>p. 0 # tl p))) (getMips t0)" by simp
  from m show "\<forall>mip\<in>set (getMips t0). \<forall>row\<in>set mip. \<forall>p\<in>set row. p \<noteq> []" by simp
qed

lemma load_slot_cong:
  "m mk = m' mk \<Longrightarrow> m k = m' k \<Longrightarrow> load_slot ld path m mk k c = load_slot ld path m' mk k c"
  by (simp add: load_slot_def split: option.splits)

lemma convert_material_ks:
  assumes "convert_material ld srgb path True mat0 = Inr mat"
  shows "\<exists>t0 t. load_slot ld path mat0 ''map_ks'' ''ks'' (Some 3) = Inr t0
           \<and> clear_texture t0 = Inr t \<and> mat ''ks'' = Some (Tex t)"
proof -
  let ?m1 = "if mat0 ''bsdf'' = None then mat0(''bsdf'' \<mapsto> Str ''pbr'') else mat0"
  from assms obtain kd where kd: "load_slot ld path ?m1 ''map_kd'' ''kd'' None = Inr kd"
    by (auto simp: convert_material_def Let_def split: sum.splits)
  let ?m2 = "?m1(''kd'' \<mapsto> Tex kd)"
  from assms kd obtain ks where ks: "load_slot ld path ?m2 ''map_ks'' ''ks'' (Some 3) = Inr ks"
    by (auto simp: convert_material_def Let_def split: sum.splits)
  have same: "load_slot ld path ?m2 ''map_ks'' ''ks'' (Some 3)
                = load_slot ld path mat0 ''map_ks'' ''ks'' (Some 3)"
    by (rule load_slot_cong) simp_all
  from assms kd ks obtain t where t: "clear_texture ks = Inr t" and m: "mat ''ks'' = Some (Tex t)"
    by (auto simp: convert_material_def Let_def split: sum.splits option.splits mtl_value.splits)
  from ks same t m show ?thesis by simp
qed

lemma convert_materials_each:
  "convert_materials ld srgb path clear ms = Inr mats \<Longrightarrow> mat \<in> set mats \<Longrightarrow>
     \<exists>mat0\<in>set ms. convert_material ld srgb path clear mat0 = Inr mat"
  by (induction ms arbitrary: mats) (auto split: sum.splits)

lemma load_slot_cases:
  assumes "load_slot ld path rec map_key key chans = Inr t0"
  shows "(\<exists>fn. rec map_key = Some (Str fn) \<and> ld (os_path_join path fn) None chans = Inr t0)
       \<or> (rec map_key = None \<and> (\<exists>xs. rec key = Some (Vec xs) \<and> t0 = Texture2D [[xs]] []))"
  using assms
  by (auto simp: load_slot_def texture_of_constant_def split: option.splits mtl_value.splits)

lemma white_code:
  "white ch = (of_char ch \<in> {9, 10, 11, 12, 13, 28, 29, 30, 31, 32 :: nat})"
proof -
  have e: "(ch = d) = (of_char ch = (of_char d :: nat))" for d by simp
  show ?thesis unfolding white_def
    by (simp add: e[of "CHR 0x09"] e[of "CHR 0x0A"] e[of "CHR 0x0B"] e[of "CHR 0x0C"]
          e[of "CHR 0x0D"] e[of "CHR 0x1C"] e[of "CHR 0x1D"] e[of "CHR 0x1E"] e[of "CHR 0x1F"]
          e[of "CHR '' ''"] del: of_char_eq_iff)
qed

lemma is_space_white: "is_space ch = white ch"
  unfolding white_code is_space_def Let_def by auto

lemma is_sep_separator: "is_sep ch = separator ch"
proof -
  have e: "(ch = d) = (of_char ch = (of_char d :: nat))" for d by simp
  show ?thesis unfolding separator_def is_sep_def Let_def
    by (simp add: e[of "CHR 0x09"] e[of "CHR 0x0A"] e[of "CHR '' ''"] del: of_char_eq_iff)
qed

lemma separator_white: "separator ch \<Longrightarrow> white ch"
  by (auto simp: separator_def white_def)

lemma strip_core:
  assumes "\<forall>ch\<in>set (pre @ post). white ch" "core \<noteq> []"
      and "\<not> white (hd core)" "\<not> white (last core)"
  shows "strip (pre @ core @ post) = core"
proof -
  from assms(2) obtain x xs where c: "core = x # xs" by (cases core) auto
  have a: "dropWhile is_space (pre @ core @ post) = core @ post"
    using assms(1,3) c by (simp add: dropWhile_append3 is_space_white)
  have r: "rev (core @ post) = rev post @ rev core" by simp
  have "rev core \<noteq> []" using assms(2) by simp
  then obtain y ys where rc: "rev core = y # ys" by (cases "rev core") auto
  have "y = last core" using rc assms(2) by (metis hd_rev list.sel(1))
  then have ny: "\<not> is_space y" using assms(4) by (simp add: is_space_white)
  have b: "dropWhile is_space (rev post @ rev core) = rev core"
    using assms(1) ny rc by (simp add: dropWhile_append3 is_space_white)
  show ?thesis unfolding strip_def a r b by simp
qed

lemma re_split_not_Nil: "re_split s \<noteq> []"
  by (induction s rule: re_split.induct) (auto split: list.splits)

lemma re_split_field:
  "list_all (\<lambda>ch. \<not> is_sep ch) f \<Longrightarrow>
     re_split (f @ s) = (f @ hd (re_split s)) # tl (re_split s)"
proof (induction f)
  case Nil
  then show ?case using re_split_not_Nil[of s] by simp
next
  case (Cons ch f)
  then show ?case using re_split_not_Nil[of "f @ s"] by (auto split: list.splits)
qed

lemma re_split_run:
  "is_sep c \<Longrightarrow> s = [] \<or> hd s \<noteq> c \<Longrightarrow>
     re_split (replicate (Suc n) c @ s) = [] # re_split s"
proof (induction n)
  case 0
  then show ?case by (cases s) auto
next
  case (Suc n)
  then show ?case by simp
qed

lemma unsplit_hd:
  assumes "fields_ok g rest" "separator c"
      and "g = [] \<longrightarrow> (case rest of [] \<Rightarrow> True | (c', n', g') # rest' \<Rightarrow> c' \<noteq> c)"
  shows "unsplit g rest = [] \<or> hd (unsplit g rest) \<noteq> c"
proof (cases g)
  case (Cons x xs)
  with assms(1) have "\<not> separator x" by (cases rest) auto
  with assms(2) Cons show ?thesis by (cases rest) auto
next
  case Nil
  show ?thesis
  proof (cases rest)
    case Nil
    with \<open>g = []\<close> show ?thesis by simp
  next
    case (Cons r rest')
    obtain c' n' g' where r: "r = (c', n', g')" by (cases r)
    with assms(3) Nil Cons have "c' \<noteq> c" by simp
    with Nil Cons r show ?thesis by simp
  qed
qed

lemma re_split_unsplit:
  "fields_ok f rest \<Longrightarrow> re_split (unsplit f rest) = f # map (\<lambda>(c, n, g). g) rest"
proof (induction f rest rule: unsplit.induct)
  case (1 f)
  then have "list_all (\<lambda>ch. \<not> is_sep ch) f" by (simp add: is_sep_separator)
  from re_split_field[OF this, of "[]"] show ?case by simp
next
  case (2 f c n g rest)
  from "2.prems" have f: "list_all (\<lambda>ch. \<not> is_sep ch) f" and c: "is_sep c" "separator c"
    and e: "g = [] \<longrightarrow> (case rest of [] \<Rightarrow> True | (c', n', g') # rest' \<Rightarrow> c' \<noteq> c)"
    and ok: "fields_ok g rest"
    by (simp_all add: is_sep_separator)
  note h = unsplit_hd[OF ok c(2) e]
  have "re_split (replicate (Suc n) c @ unsplit g rest) = [] # re_split (unsplit g rest)"
    by (rule re_split_run[OF c(1) h])
  with "2.IH"[OF ok] re_split_field[OF f, of "replicate (Suc n) c @ unsplit g rest"]
  show ?case by simp
qed

lemma lower_char_code:
  "of_char (lower_char ch) =
     (if 65 \<le> (of_char ch :: nat) \<and> (of_char ch :: nat) \<le> 90 then of_char ch + 32
      else (of_char ch :: nat))"
proof (cases "65 \<le> (of_char ch :: nat) \<and> (of_char ch :: nat) \<le> 90")
  case False
  have "lower_char ch = ch" unfolding lower_char_def Let_def by (simp only: False if_False)
  then show ?thesis by (simp only: False if_False)
next
  case True
  have all: "\<forall>d\<in>set ''ABCDEFGHIJKLMNOPQRSTUVWXYZ''. of_char (lower_char d) = (of_char d + 32 :: nat)"
    by (simp add: lower_char_def)
  have mem: "ch \<in> set ''ABCDEFGHIJKLMNOPQRSTUVWXYZ''"
  proof -
    have "(of_char ch :: nat) \<in> of_char ` set ''ABCDEFGHIJKLMNOPQRSTUVWXYZ''"
      using True by (simp del: of_char_eq_iff) presburger
    then obtain d where d: "d \<in> set ''ABCDEFGHIJKLMNOPQRSTUVWXYZ''"
      "(of_char ch :: nat) = of_char d" by blast
    from d(2) have "ch = d" by simp
    with d(1) show ?thesis by simp
  qed
  from bspec[OF all mem] show ?thesis by (simp only: True simp_thms if_True)
qed

lemma lower_spec: "lower s = spec_lower s"
proof -
  have "lower_char ch = (if 65 \<le> (of_char ch :: nat) \<and> (of_char ch :: nat) \<le> 90
               then char_of (of_char ch + 32 :: nat) else ch)" for ch
  proof -
    have "lower_char ch = char_of (of_char (lower_char ch) :: nat)" by simp
    also have "\<dots> = (if 65 \<le> (of_char ch :: nat) \<and> (of_char ch :: nat) \<le> 90
               then char_of (of_char ch + 32 :: nat) else ch)"
      unfolding lower_char_code by simp
    finally show ?thesis .
  qed
  then show ?thesis by (simp add: lower_def spec_lower_def)
qed

lemma unsplit_key: "key \<noteq> [] \<Longrightarrow> unsplit key fs \<noteq> [] \<and> hd (unsplit key fs) = hd key"
  by (cases "(key, fs)" rule: unsplit.cases) auto




lemmas lower_eval = lower_spec[symmetric] lower_def lower_char_def Let_def

lemma key_of_fields:
  assumes "line = p @ unsplit key fs @ q" "\<forall>ch\<in>set (p @ q). white ch" "fields_ok key fs"
      and "key \<noteq> []" "\<not> white (hd key)" "\<not> white (last (unsplit key fs))"
  shows "key_of line = spec_lower key"
    and "is_newmtl line = (\<exists>a b. spec_lower key = a @ ''newmtl'' @ b)"
proof -
  note k = unsplit_key[OF assms(4), of fs]
  have st: "strip line = unsplit key fs"
    unfolding assms(1) using strip_core[OF assms(2)] k assms(5,6) by simp
  have sp: "re_split (strip line) = key # map (\<lambda>(c, n, g). g) fs"
    unfolding st by (rule re_split_unsplit[OF assms(3)])
  show a: "key_of line = spec_lower key" by (simp add: key_of_def sp lower_spec)
  show "is_newmtl line = (\<exists>a b. spec_lower key = a @ ''newmtl'' @ b)"
    unfolding is_newmtl_def a by (rule is_substring_iff)
qed

lemma key_of_blank:
  assumes "\<forall>ch\<in>set line. white ch"
  shows "key_of line = []" and "\<not> is_newmtl line"
proof -
  have d: "dropWhile is_space line = []"
    unfolding dropWhile_eq_Nil_conv is_space_white using assms .
  have st: "strip line = []" unfolding strip_def d by simp
  show a: "key_of line = []" by (simp add: key_of_def st lower_def)
  show "\<not> is_newmtl line" by (simp add: is_newmtl_def a)
qed

text \<open>Every text has a reading as fields and separator runs, and every line with a
  character that is not white space is such a text between white space at its two
  ends, its key not empty: the readings below cover every line that is not blank.\<close>

lemma unsplit_Cons: "unsplit (c # k) fs = c # unsplit k fs"
  by (cases fs) auto

lemma fields_ok_Cons: "\<not> separator c \<Longrightarrow> fields_ok k fs \<Longrightarrow> fields_ok (c # k) fs"
  by (cases fs) auto

lemma fields_exist: "\<exists>key fs. s = unsplit key fs \<and> fields_ok key fs"
proof (induction s)
  case Nil
  have "[] = unsplit [] [] \<and> fields_ok [] []" by simp
  then show ?case by blast
next
  case (Cons c cs)
  then obtain k fs where u: "cs = unsplit k fs" and ok: "fields_ok k fs" by blast
  show ?case
  proof (cases "separator c")
    case False
    from u have "c # cs = unsplit (c # k) fs" by (simp add: unsplit_Cons)
    with fields_ok_Cons[OF False ok] show ?thesis by blast
  next
    case True
    show ?thesis
    proof (cases "k = [] \<and> (\<exists>n g rest. fs = (c, n, g) # rest)")
      case True
      then obtain n g rest where k: "k = []" and fs: "fs = (c, n, g) # rest" by blast
      from u have a: "c # cs = unsplit [] ((c, Suc n, g) # rest)" by (simp add: k fs)
      from ok have "fields_ok [] ((c, Suc n, g) # rest)" by (simp add: k fs)
      with a show ?thesis by blast
    next
      case False
      from u have a: "c # cs = unsplit [] ((c, 0, k) # fs)" by simp
      have "k = [] \<longrightarrow> (case fs of [] \<Rightarrow> True | (c', n', g') # rest' \<Rightarrow> c' \<noteq> c)"
        using False by (auto split: list.splits)
      with ok \<open>separator c\<close> have "fields_ok [] ((c, 0, k) # fs)" by simp
      with a show ?thesis by blast
    qed
  qed
qed

lemma line_core:
  assumes "\<exists>ch\<in>set line. \<not> white ch"
  shows "\<exists>pre core post. line = pre @ core @ post \<and> (\<forall>ch\<in>set (pre @ post). white ch)
           \<and> core \<noteq> [] \<and> \<not> white (hd core) \<and> \<not> white (last core)"
proof -
  let ?pre = "takeWhile white line"
  let ?rest = "dropWhile white line"
  let ?core = "rev (dropWhile white (rev ?rest))"
  let ?post = "rev (takeWhile white (rev ?rest))"
  have l: "line = ?pre @ ?rest" by simp
  have r: "?rest = ?core @ ?post"
    using takeWhile_dropWhile_id[of white "rev ?rest"] by (metis rev_append rev_rev_ident)
  have rn: "?rest \<noteq> []" using assms by (simp add: dropWhile_eq_Nil_conv)
  then have h: "\<not> white (hd ?rest)" by (rule hd_dropWhile)
  have "hd ?rest \<in> set (rev ?rest)" using hd_in_set[OF rn] by simp
  with h have "\<exists>ch\<in>set (rev ?rest). \<not> white ch" by blast
  then have dn: "dropWhile white (rev ?rest) \<noteq> []" by (simp add: dropWhile_eq_Nil_conv)
  then have cn: "?core \<noteq> []" by simp
  have "\<not> white (hd (dropWhile white (rev ?rest)))" using dn by (rule hd_dropWhile)
  then have la: "\<not> white (last ?core)" using dn by (simp add: last_rev)
  have hc: "hd ?core = hd ?rest" using r cn by (metis hd_append2)
  have w: "\<forall>ch\<in>set (?pre @ ?post). white ch"
    by (auto dest: set_takeWhileD)
  have "line = ?pre @ ?core @ ?post" using l r by simp
  with w cn h hc la show ?thesis by metis
qed

lemma line_fields:
  assumes "\<exists>ch\<in>set line. \<not> white ch"
  shows "\<exists>pre key fs post. line = pre @ unsplit key fs @ post
           \<and> (\<forall>ch\<in>set (pre @ post). white ch) \<and> fields_ok key fs
           \<and> key \<noteq> [] \<and> \<not> white (hd key) \<and> \<not> white (last (unsplit key fs))"
proof -
  from line_core[OF assms] obtain pre core post where
    l: "line = pre @ core @ post" and w: "\<forall>ch\<in>set (pre @ post). white ch"
    and cn: "core \<noteq> []" and h: "\<not> white (hd core)" and la: "\<not> white (last core)" by blast
  from fields_exist[of core] obtain key fs where u: "core = unsplit key fs"
    and ok: "fields_ok key fs" by blast
  have kn: "key \<noteq> []"
  proof
    assume k: "key = []"
    with u cn obtain c n g rest where fs: "fs = (c, n, g) # rest" by (cases fs) auto
    from u k fs have "hd core = c" by simp
    moreover from ok fs have "separator c" by simp
    ultimately show False using h separator_white by blast
  qed
  then obtain x xs where "key = x # xs" by (cases key) auto
  with u have "hd core = hd key" by (simp add: unsplit_Cons)
  with h have hk: "\<not> white (hd key)" by simp
  from l u w ok kn hk la show ?thesis by blast
qed

section \<open>The claims\<close>

subsection \<open>C1: the rewritten texture coordinate\<close>

text \<open>
  C1. Whenever a merge call returns, for every face \<open>fi\<close> and each of its three
  corners \<open>vi\<close>: with \<open>(u, v)\<close> the original UV pair the corner's index names and
  \<open>i\<close> the material index of the face, the entry of the new table that the
  rewritten corner names is \<open>((i + u) / sCol, v / sRow)\<close>, where
  \<open>sRow = fullRes.height / maxRes.height\<close> and \<open>sCol = fullRes.width / maxRes.width\<close>,
  \<open>maxRes\<close> being the maximum resolution the merge computes and \<open>fullRes\<close> the
  canvas it derives from it. The sum and the quotients are float operations, each
  the exact value rounded by \<open>rnd\<close>, on the integers \<open>i\<close>, \<open>fullRes\<close> and \<open>maxRes\<close>
  converted to floats; in exact arithmetic the entry is the pair as written, which
  the example shows.
\<close>

theorem uv_formula:
  assumes "merge_materials rnd scale_img materials texcoords tfaces mfaces
             = (materials', Inr (uber, new_tverts_data, tfaces'))"
      and "fi < length tfaces" and "vi < 3"
  shows "\<exists>max_res full_res uv u v.
           max_res_loop None (List.product materials' textures) = Inr (Some max_res)
         \<and> compute_full_res max_res (length materials) = Inr full_res
         \<and> py_get texcoords (tfaces ! fi ! vi) = Inr uv
         \<and> py_get uv 0 = Inr u \<and> py_get uv 1 = Inr v
         \<and> py_get new_tverts_data (tfaces' ! fi ! vi) =
             Inr [rnd (rnd (rnd (of_int (mfaces ! fi)) + u)
                         / rnd (rnd (real (snd full_res)) / rnd (real (snd max_res)))),
                  rnd (v / rnd (rnd (real (fst full_res)) / rnd (real (fst max_res))))]"
  using merge_corner_entry[OF assms] .

theorem uv_formula_witness:
  "\<exists>uber max_res full_res uv u v.
     merge_materials exact nearest_scale [ex_plain, ex_plain] [[0, 0], [1, 0], [0, 1]]
        [[0, 1, 2], [0, 1, 2]] [0, 1]
       = ([ex_plain, ex_plain],
          Inr (uber, [[0, 0], [1 / 2, 0], [0, 1], [1 / 2, 0], [1, 0], [1 / 2, 1]],
               [[0, 1, 2], [3, 4, 5]]))
   \<and> (1::nat) < length [[0, 1, 2], [0, 1, 2::int]] \<and> (1::nat) < 3
   \<and> max_res_loop None (List.product [ex_plain, ex_plain] textures) = Inr (Some max_res)
   \<and> compute_full_res max_res (length [ex_plain, ex_plain]) = Inr full_res
   \<and> py_get [[0, 0], [1, 0], [0, 1::real]] ([[0, 1, 2], [0, 1, 2]] ! 1 ! 1) = Inr uv
   \<and> py_get uv 0 = Inr u \<and> py_get uv 1 = Inr v
   \<and> py_get [[0, 0], [1 / 2, 0], [0, 1], [1 / 2, 0], [1, 0], [1 / 2, 1]]
         ([[0, 1, 2], [3, 4, 5]] ! 1 ! 1) =
       Inr [(of_int ([0, 1] ! 1) + u) / (real (snd full_res) / real (snd max_res)),
            v / (real (fst full_res) / real (fst max_res))]"
proof -
  from ex_merge_plain obtain uber where
    m: "merge_materials exact nearest_scale [ex_plain, ex_plain] [[0, 0], [1, 0], [0, 1]]
          [[0, 1, 2], [0, 1, 2]] [0, 1]
        = ([ex_plain, ex_plain],
           Inr (uber, [[0, 0], [1 / 2, 0], [0, 1], [1 / 2, 0], [1, 0], [1 / 2, 1]],
                [[0, 1, 2], [3, 4, 5]]))" by blast
  have a: "(1::nat) < length [[0, 1, 2], [0, 1, 2::int]]" and b: "(1::nat) < 3" by simp_all
  from uv_formula[OF m a b, unfolded exact_def] m a b show ?thesis by blast
qed

subsection \<open>C2: the resolution of the atlas\<close>

text \<open>
  C2. Whenever a merge call returns (so the material sequence is not empty and
  line 172 has not raised): with \<open>(H, W)\<close> the element-wise maximum,
  over all materials and the three slots kd, ks and normal, of the resolution of
  the slot (1 by 1 where a material has no texture there), the maximum the merge
  computes is \<open>(H, W)\<close> and the canvas resolution it derives is
  \<open>(2 ^ ceil (log2 H), 2 ^ ceil (log2 (W * m)))\<close> for \<open>m\<close> materials, a power of two
  in each dimension, no smaller than \<open>H\<close> and \<open>W * m\<close>. When the resampling returns
  images of the resolution asked for, every merged texture has that resolution.
\<close>

theorem atlas_resolution:
  assumes "merge_materials rnd scale_img materials texcoords tfaces mfaces
             = (materials', Inr (uber, new_tverts_data, tfaces'))"
  shows "\<exists>H W. H = Max {fst (slot_res m tex) | m tex. m \<in> set materials \<and> tex \<in> set textures}
         \<and> W = Max {snd (slot_res m tex) | m tex. m \<in> set materials \<and> tex \<in> set textures}
         \<and> max_res_loop None (List.product materials' textures) = Inr (Some (H, W))
         \<and> compute_full_res (H, W) (length materials)
             = Inr (2 ^ nat \<lceil>log 2 (real H)\<rceil>, 2 ^ nat \<lceil>log 2 (real (W * length materials))\<rceil>)
         \<and> H \<le> 2 ^ nat \<lceil>log 2 (real H)\<rceil>
         \<and> W * length materials \<le> 2 ^ nat \<lceil>log 2 (real (W * length materials))\<rceil>
         \<and> (scales_to_size scale_img \<longrightarrow>
              (\<forall>tex\<in>set textures. \<forall>t. uber tex = Some (Tex t) \<longrightarrow>
                 getRes t
                   = (2 ^ nat \<lceil>log 2 (real H)\<rceil>, 2 ^ nat \<lceil>log 2 (real (W * length materials))\<rceil>)))"
proof -
  from merge_materials_Inr[OF assms(1)] have ne: "materials \<noteq> []"
    and mc: "merge_checked rnd scale_img materials' texcoords tfaces mfaces
               = Inr (uber, new_tverts_data, tfaces')"
    and ms': "if mixed_normals materials then inject_normals materials = (materials', None)
              else materials' = materials"
    by simp_all
  have ms'': "materials' = materials \<or> materials' = map with_flat_normal materials"
    using ms' inject_normals_None by (auto split: if_splits)
  then have len: "length materials' = length materials" by auto
  then have ne': "materials' \<noteq> []" using ne by auto
  from merge_checked_Inr[OF mc] obtain bsdf r fr where
    r: "max_res_loop None (List.product materials' textures) = Inr (Some r)" and
    fr: "compute_full_res r (length materials') = Inr fr" and
    comb: "combine_textures scale_img materials' r fr
                [''name'' \<mapsto> Str ''uber_material'', ''bsdf'' \<mapsto> bsdf] textures = Inr uber"
    by blast
  let ?H = "Max {fst (slot_res m tex) | m tex. m \<in> set materials \<and> tex \<in> set textures}"
  let ?W = "Max {snd (slot_res m tex) | m tex. m \<in> set materials \<and> tex \<in> set textures}"
  from max_res_loop_None_Max[OF r] have
    "fst r = Max {fst (slot_res m tex) | m tex. m \<in> set materials' \<and> tex \<in> set textures}"
    "snd r = Max {snd (slot_res m tex) | m tex. m \<in> set materials' \<and> tex \<in> set textures}"
    unfolding slot_set_fst by simp_all
  with ms'' have "fst r = ?H" "snd r = ?W"
    using slot_set_flat[of fst materials textures] slot_set_flat[of snd materials textures] by auto
  then have req: "r = (?H, ?W)" by (simp add: prod_eq_iff)
  note c = compute_full_res_Inr[OF fr]
  have rp: "0 < fst r" "0 < snd r * length materials" using c(1,2) len by simp_all
  let ?F = "(2 ^ nat \<lceil>log 2 (real ?H)\<rceil>, 2 ^ nat \<lceil>log 2 (real (?W * length materials))\<rceil>) :: nat \<times> nat"
  have full: "compute_full_res (?H, ?W) (length materials) = Inr ?F"
    using compute_full_res_log[OF rp] req by simp
  have freq: "fr = ?F" using fr full req len by simp
  have ge: "?H \<le> 2 ^ nat \<lceil>log 2 (real ?H)\<rceil>"
    "?W * length materials \<le> 2 ^ nat \<lceil>log 2 (real (?W * length materials))\<rceil>"
    using c(5,6) freq req len by simp_all
  have tex: "getRes t = ?F"
    if sc: "scales_to_size scale_img" and tx: "tex \<in> set textures" and u: "uber tex = Some (Tex t)" for tex t
  proof -
    have init: "[''name'' \<mapsto> Str ''uber_material'', ''bsdf'' \<mapsto> bsdf] tex = None"
      using tx by (auto simp: textures_def)
    from combine_textures_res[OF comb sc ne' c(1) c(5) c(6) u] init freq
    show ?thesis by auto
  qed
  from r req full ge tex show ?thesis by blast
qed

theorem atlas_resolution_witness:
  "\<exists>uber H W.
     merge_materials exact nearest_scale [ex_plain, ex_bumpy] [[0, 0], [1, 0], [0, 1]]
        [[0, 1, 2], [0, 1, 2]] [0, 1]
       = ([ex_plain(''normal'' \<mapsto> Tex flat_normal), ex_bumpy],
          Inr (uber, [[0, 0], [1 / 2, 0], [0, 1], [1 / 2, 0], [1, 0], [1 / 2, 1]],
               [[0, 1, 2], [3, 4, 5]]))
   \<and> H = Max {fst (slot_res m tex) | m tex. m \<in> set [ex_plain, ex_bumpy] \<and> tex \<in> set textures}
   \<and> W = Max {snd (slot_res m tex) | m tex. m \<in> set [ex_plain, ex_bumpy] \<and> tex \<in> set textures}
   \<and> compute_full_res (H, W) (length [ex_plain, ex_bumpy])
       = Inr (2 ^ nat \<lceil>log 2 (real H)\<rceil>, 2 ^ nat \<lceil>log 2 (real (W * length [ex_plain, ex_bumpy]))\<rceil>)
   \<and> H \<le> 2 ^ nat \<lceil>log 2 (real H)\<rceil>
   \<and> W * length [ex_plain, ex_bumpy] \<le> 2 ^ nat \<lceil>log 2 (real (W * length [ex_plain, ex_bumpy]))\<rceil>
   \<and> scales_to_size nearest_scale
   \<and> uber ''normal'' = Some (Tex (Texture2D [[[0, 0, 1], [0, 0, 1], [0, 0, 1], [0, 1, 0]]] []))
   \<and> getRes (Texture2D [[[0, 0, 1], [0, 0, 1], [0, 0, 1], [0, 1, 0]]] [])
       = (2 ^ nat \<lceil>log 2 (real H)\<rceil>, 2 ^ nat \<lceil>log 2 (real (W * length [ex_plain, ex_bumpy]))\<rceil>)
   \<and> getRes (Texture2D [[[0, 0, 1], [0, 0, 1], [0, 0, 1], [0, 1, 0]]] []) = (1, 4)"
proof -
  from ex_merge_mixed obtain uber where
    m: "merge_materials exact nearest_scale [ex_plain, ex_bumpy] [[0, 0], [1, 0], [0, 1]]
          [[0, 1, 2], [0, 1, 2]] [0, 1]
        = ([ex_plain(''normal'' \<mapsto> Tex flat_normal), ex_bumpy],
           Inr (uber, [[0, 0], [1 / 2, 0], [0, 1], [1 / 2, 0], [1, 0], [1 / 2, 1]],
                [[0, 1, 2], [3, 4, 5]]))"
    and n: "uber ''normal'' = Some (Tex (Texture2D [[[0, 0, 1], [0, 0, 1], [0, 0, 1], [0, 1, 0]]] []))"
    by blast
  have t: "''normal'' \<in> set textures" by (simp add: textures_def)
  have g: "getRes (Texture2D [[[0, 0, 1], [0, 0, 1], [0, 0, 1], [0, 1, 0]]] []) = (1, 4)"
    by (simp add: getRes_def height_def width_def)
  from atlas_resolution[OF m] nearest_scale_size t n g m
  show ?thesis by blast
qed

subsection \<open>C3: one entry for each distinct pair\<close>

text \<open>
  C3. Whenever a merge call returns, the new texture coordinate table has as many
  entries as there are distinct pairs (original UV index, material index) among the
  face corners; two corners are rewritten to the same entry exactly when their pairs
  are equal (a recurring pair reuses its entry, the same UV index under two
  materials gets two entries); and the entry of a pair stands at the position of
  the pair in the list of first occurrences, in the order of the face scan.
\<close>

theorem dedup_table:
  assumes "merge_materials rnd scale_img materials texcoords tfaces mfaces
             = (materials', Inr (uber, new_tverts_data, tfaces'))"
  shows "length new_tverts_data = card (set (corner_pairs tfaces mfaces))
       \<and> set (corner_pairs tfaces mfaces)
            = {(tfaces ! fi ! vi, mfaces ! fi) | fi vi. fi < length tfaces \<and> vi < 3}
       \<and> (\<forall>fi vi fj vj. fi < length tfaces \<and> vi < 3 \<and> fj < length tfaces \<and> vj < 3 \<longrightarrow>
             (tfaces' ! fi ! vi = tfaces' ! fj ! vj)
               = ((tfaces ! fi ! vi, mfaces ! fi) = (tfaces ! fj ! vj, mfaces ! fj)))
       \<and> (\<forall>fi vi. fi < length tfaces \<and> vi < 3 \<longrightarrow>
             tfaces' ! fi ! vi =
               int (index_of (rev (remdups (rev (corner_pairs tfaces mfaces))))
                      (tfaces ! fi ! vi, mfaces ! fi)))"
proof -
  from merge_materials_Inr[OF assms] have
    mc: "merge_checked rnd scale_img materials' texcoords tfaces mfaces = Inr (uber, new_tverts_data, tfaces')"
    by simp
  from merge_checked_Inr[OF mc] obtain s where
    rw: "rewrite_texcoords rnd s texcoords tfaces mfaces = Inr (new_tverts_data, tfaces')"
    by blast
  note r = rewrite_texcoords_result[OF rw]
  let ?ks = "created_pairs tfaces mfaces"
  have "length new_tverts_data = length ?ks" using r(2) by (metis length_map)
  also have "\<dots> = card (set ?ks)"
    using created_pairs_distinct by (simp add: distinct_card)
  finally have c1: "length new_tverts_data = card (set (corner_pairs tfaces mfaces))"
    by (simp add: created_pairs_set)
  have c2: "set (corner_pairs tfaces mfaces)
            = {(tfaces ! fi ! vi, mfaces ! fi) | fi vi. fi < length tfaces \<and> vi < 3}"
    using corner_pairs_set[OF r(1)] .
  have mem: "(tfaces ! fi ! vi, mfaces ! fi) \<in> set ?ks" if "fi < length tfaces" "vi < 3" for fi vi
    using corner_pairs_mem[OF that(1) r(1) that(2)] by (simp add: created_pairs_set)
  have c3: "(tfaces' ! fi ! vi = tfaces' ! fj ! vj)
               = ((tfaces ! fi ! vi, mfaces ! fi) = (tfaces ! fj ! vj, mfaces ! fj))"
    if "fi < length tfaces" "vi < 3" "fj < length tfaces" "vj < 3" for fi vi fj vj
  proof
    assume "tfaces' ! fi ! vi = tfaces' ! fj ! vj"
    then have "index_of ?ks (tfaces ! fi ! vi, mfaces ! fi) = index_of ?ks (tfaces ! fj ! vj, mfaces ! fj)"
      using r(5)[OF that(1,2)] r(5)[OF that(3,4)] by simp
    then show "(tfaces ! fi ! vi, mfaces ! fi) = (tfaces ! fj ! vj, mfaces ! fj)"
      using index_of_inj[OF mem[OF that(1,2)] mem[OF that(3,4)]] by blast
  next
    assume "(tfaces ! fi ! vi, mfaces ! fi) = (tfaces ! fj ! vj, mfaces ! fj)"
    then show "tfaces' ! fi ! vi = tfaces' ! fj ! vj"
      using r(5)[OF that(1,2)] r(5)[OF that(3,4)] by simp
  qed
  have c4: "tfaces' ! fi ! vi =
               int (index_of (rev (remdups (rev (corner_pairs tfaces mfaces))))
                      (tfaces ! fi ! vi, mfaces ! fi))"
    if "fi < length tfaces" "vi < 3" for fi vi
    using r(5)[OF that] by (simp add: created_pairs_def)
  from c1 c2 c3 c4 show ?thesis by blast
qed

theorem dedup_table_witness:
  "\<exists>uber.
     merge_materials exact nearest_scale [ex_plain, ex_plain] [[0, 0], [1, 0], [0, 1]]
        [[0, 1, 2], [0, 1, 2]] [0, 1]
       = ([ex_plain, ex_plain],
          Inr (uber, [[0, 0], [1 / 2, 0], [0, 1], [1 / 2, 0], [1, 0], [1 / 2, 1]],
               [[0, 1, 2], [3, 4, 5]]))
   \<and> length [[0, 0], [1 / 2, 0], [0, 1], [1 / 2, 0], [1, 0], [1 / 2, 1::real]]
       = card (set (corner_pairs [[0, 1, 2], [0, 1, 2]] [0, 1]))
   \<and> card (set (corner_pairs [[0, 1, 2], [0, 1, 2]] [0, 1])) = 6
   \<and> [[0, 1, 2], [3, 4, 5::int]] ! 0 ! 1 \<noteq> [[0, 1, 2], [3, 4, 5]] ! 1 ! 1
   \<and> [[0, 1, 2], [3, 4, 5::int]] ! 1 ! 1 =
       int (index_of (rev (remdups (rev (corner_pairs [[0, 1, 2], [0, 1, 2]] [0, 1]))))
              ([[0, 1, 2], [0, 1, 2]] ! 1 ! 1, [0, 1] ! 1))"
proof -
  from ex_merge_plain obtain uber where
    m: "merge_materials exact nearest_scale [ex_plain, ex_plain] [[0, 0], [1, 0], [0, 1]]
          [[0, 1, 2], [0, 1, 2]] [0, 1]
        = ([ex_plain, ex_plain],
           Inr (uber, [[0, 0], [1 / 2, 0], [0, 1], [1 / 2, 0], [1, 0], [1 / 2, 1]],
                [[0, 1, 2], [3, 4, 5]]))" by blast
  note d = dedup_table[OF m]
  have six: "card (set (corner_pairs [[0, 1, 2], [0, 1, 2]] [0, 1])) = 6"
    by (simp add: corner_pairs_def)
  from d have a: "length [[0, 0], [1 / 2, 0], [0, 1], [1 / 2, 0], [1, 0], [1 / 2, 1::real]]
       = card (set (corner_pairs [[0, 1, 2], [0, 1, 2]] [0, 1]))" by blast
  from d have "(1::nat) < length [[0, 1, 2], [0, 1, 2::int]] \<and> (1::nat) < 3 \<longrightarrow>
      [[0, 1, 2], [3, 4, 5::int]] ! 1 ! 1 =
       int (index_of (rev (remdups (rev (corner_pairs [[0, 1, 2], [0, 1, 2]] [0, 1]))))
              ([[0, 1, 2], [0, 1, 2]] ! 1 ! 1, [0, 1] ! 1))" by blast
  then have b: "[[0, 1, 2], [3, 4, 5::int]] ! 1 ! 1 =
       int (index_of (rev (remdups (rev (corner_pairs [[0, 1, 2], [0, 1, 2]] [0, 1]))))
              ([[0, 1, 2], [0, 1, 2]] ! 1 ! 1, [0, 1] ! 1))" by simp
  have c: "[[0, 1, 2], [3, 4, 5::int]] ! 0 ! 1 \<noteq> [[0, 1, 2], [3, 4, 5]] ! 1 ! 1" by simp
  from m a six b c show ?thesis by blast
qed

subsection \<open>C4: the cell of a face's material\<close>

text \<open>
  C4, as the code has it. Whenever a merge call returns, \<open>sCol\<close> is at least 1 and,
  for a face corner whose material index \<open>i\<close> is below \<open>2 ^ 53\<close> in magnitude: when
  the original \<open>u\<close> lies in \<open>[0, 1]\<close>, the new \<open>u'\<close> lies in the closed interval
  from \<open>rnd (i / sCol)\<close> to \<open>rnd ((i + 1) / sCol)\<close>, \<open>rnd\<close> being the rounding of the
  float format; when \<open>u \<le> 0\<close>, \<open>u'\<close> is at or below the left end, and when
  \<open>1 \<le> u\<close>, at or above the right end: the code neither clamps nor wraps \<open>u\<close>.
  The right end is reached at \<open>u = 1\<close> and, in binary64, through the rounding of
  \<open>i + u\<close>, also for \<open>u\<close> just below 1, as the counterexample shows. In exact
  arithmetic \<open>u'\<close> lies in \<open>[i / sCol, (i + 1) / sCol)\<close> exactly when \<open>u\<close> lies in
  \<open>[0, 1)\<close>.
\<close>

theorem uv_partition:
  assumes "merge_materials rnd scale_img materials texcoords tfaces mfaces
             = (materials', Inr (uber, new_tverts_data, tfaces'))"
      and "rounding rnd"
      and "fi < length tfaces" and "vi < 3"
      and "\<bar>mfaces ! fi\<bar> < 2 ^ 53"
  shows "\<exists>max_res full_res sCol uv u v u' v'.
           max_res_loop None (List.product materials' textures) = Inr (Some max_res)
         \<and> compute_full_res max_res (length materials) = Inr full_res
         \<and> sCol = rnd (rnd (real (snd full_res)) / rnd (real (snd max_res))) \<and> 1 \<le> sCol
         \<and> py_get texcoords (tfaces ! fi ! vi) = Inr uv
         \<and> py_get uv 0 = Inr u \<and> py_get uv 1 = Inr v
         \<and> py_get new_tverts_data (tfaces' ! fi ! vi) = Inr [u', v']
         \<and> (0 \<le> u \<and> u \<le> 1 \<longrightarrow>
               rnd (of_int (mfaces ! fi) / sCol) \<le> u' \<and> u' \<le> rnd ((of_int (mfaces ! fi) + 1) / sCol))
         \<and> (u \<le> 0 \<longrightarrow> u' \<le> rnd (of_int (mfaces ! fi) / sCol))
         \<and> (1 \<le> u \<longrightarrow> rnd ((of_int (mfaces ! fi) + 1) / sCol) \<le> u')
         \<and> ((\<forall>x. rnd x = x) \<longrightarrow>
               (of_int (mfaces ! fi) / sCol \<le> u' \<and> u' < (of_int (mfaces ! fi) + 1) / sCol)
                 = (0 \<le> u \<and> u < 1))"
proof -
  from merge_corner_entry[OF assms(1,3,4)] obtain max_res full_res uv u v where
    mr: "max_res_loop None (List.product materials' textures) = Inr (Some max_res)" and
    fr: "compute_full_res max_res (length materials) = Inr full_res" and
    uv: "py_get texcoords (tfaces ! fi ! vi) = Inr uv" "py_get uv 0 = Inr u" "py_get uv 1 = Inr v" and
    e: "py_get new_tverts_data (tfaces' ! fi ! vi) =
             Inr [rnd (rnd (rnd (of_int (mfaces ! fi)) + u)
                         / rnd (rnd (real (snd full_res)) / rnd (real (snd max_res)))),
                  rnd (v / rnd (rnd (real (fst full_res)) / rnd (real (fst max_res))))]"
    by blast
  let ?s = "rnd (rnd (real (snd full_res)) / rnd (real (snd max_res)))"
  let ?u' = "rnd (rnd (rnd (of_int (mfaces ! fi)) + u) / ?s)"
  have s1: "1 \<le> ?s" using merge_s_coeff(1)[OF assms(1) mr fr assms(2)] .
  then have s: "0 < ?s" by simp
  note b = cell_bounds[OF assms(2) s assms(5), of u]
  have x: "(\<forall>x. rnd x = x) \<longrightarrow>
               (of_int (mfaces ! fi) / ?s \<le> ?u' \<and> ?u' < (of_int (mfaces ! fi) + 1) / ?s)
                 = (0 \<le> u \<and> u < 1)"
  proof
    assume id: "\<forall>x. rnd x = x"
    from s have s': "0 < real (snd full_res) / real (snd max_res)" by (simp add: id)
    have u': "?u' = (of_int (mfaces ! fi) + u) / (real (snd full_res) / real (snd max_res))"
      by (simp add: id)
    from interval_shift[OF s', of "of_int (mfaces ! fi)" u]
    show "(of_int (mfaces ! fi) / ?s \<le> ?u' \<and> ?u' < (of_int (mfaces ! fi) + 1) / ?s)
                 = (0 \<le> u \<and> u < 1)"
      by (simp add: id)
  qed
  show ?thesis
    apply (rule exI[of _ max_res], rule exI[of _ full_res], rule exI[of _ ?s], rule exI[of _ uv],
           rule exI[of _ u], rule exI[of _ v], rule exI[of _ ?u'],
           rule exI[of _ "rnd (v / rnd (rnd (real (fst full_res)) / rnd (real (fst max_res))))"])
    apply (intro conjI)
    apply (rule mr fr refl s1 uv e b x)+
    done
qed

theorem uv_partition_witness:
  "\<exists>uber max_res full_res sCol uv u v u' v'.
     merge_materials binary64 nearest_scale [ex_plain, ex_plain] [[1 - 1 / 2 ^ 53, 0]]
        [[0, 0, 0]] [1]
       = ([ex_plain, ex_plain], Inr (uber, [[1, 0]], [[0, 0, 0]]))
   \<and> rounding binary64
   \<and> (0::nat) < length [[0, 0, 0::int]] \<and> (0::nat) < 3 \<and> \<bar>[1] ! 0\<bar> < (2::int) ^ 53
   \<and> max_res_loop None (List.product [ex_plain, ex_plain] textures) = Inr (Some max_res)
   \<and> compute_full_res max_res (length [ex_plain, ex_plain]) = Inr full_res
   \<and> sCol = binary64 (binary64 (real (snd full_res)) / binary64 (real (snd max_res))) \<and> sCol = 2
   \<and> py_get [[1 - 1 / 2 ^ 53, 0::real]] ([[0, 0, 0]] ! 0 ! 0) = Inr uv
   \<and> py_get uv 0 = Inr u \<and> py_get uv 1 = Inr v
   \<and> py_get [[1, 0::real]] ([[0, 0, 0]] ! 0 ! 0) = Inr [u', v']
   \<and> 0 \<le> u \<and> u \<le> 1
   \<and> binary64 (of_int ([1] ! 0) / sCol) \<le> u'
   \<and> u' \<le> binary64 ((of_int ([1] ! 0) + 1) / sCol)"
proof -
  from ex_merge_b64 obtain uber where
    m: "merge_materials binary64 nearest_scale [ex_plain, ex_plain] [[1 - 1 / 2 ^ 53, 0]]
          [[0, 0, 0]] [1]
        = ([ex_plain, ex_plain], Inr (uber, [[1, 0]], [[0, 0, 0]]))" by blast
  have a: "(0::nat) < length [[0, 0, 0::int]]" and b: "(0::nat) < 3"
    and c: "\<bar>[1] ! 0\<bar> < (2::int) ^ 53" by simp_all
  from uv_partition[OF m rounding_binary64 a b c] obtain max_res full_res sCol uv u v u' v' where
    mr: "max_res_loop None (List.product [ex_plain, ex_plain] textures) = Inr (Some max_res)"
    and fr: "compute_full_res max_res (length [ex_plain, ex_plain]) = Inr full_res"
    and s: "sCol = binary64 (binary64 (real (snd full_res)) / binary64 (real (snd max_res)))"
    and uv: "py_get [[1 - 1 / 2 ^ 53, 0::real]] ([[0, 0, 0]] ! 0 ! 0) = Inr uv"
      "py_get uv 0 = Inr u" "py_get uv 1 = Inr v"
    and e: "py_get [[1, 0::real]] ([[0, 0, 0]] ! 0 ! 0) = Inr [u', v']"
    and i: "0 \<le> u \<and> u \<le> 1 \<longrightarrow>
               binary64 (of_int ([1] ! 0) / sCol) \<le> u'
             \<and> u' \<le> binary64 ((of_int ([1] ! 0) + 1) / sCol)"
    by (elim exE conjE)
  from mr have mv: "max_res = (1, 1)" by (auto simp: eval_defs)
  from fr have fv: "full_res = (1, 2)" by (auto simp: mv eval_defs)
  have sv: "sCol = 2" by (simp add: s mv fv binary64_small)
  from uv(1) have "uv = [1 - 1 / 2 ^ 53, 0]" by (simp add: py_get_def)
  with uv(2) have uval: "u = 1 - 1 / 2 ^ 53" by (simp add: py_get_def)
  then have u0: "0 \<le> u" and u1: "u \<le> 1" by simp_all
  from u0 u1 have u01: "0 \<le> u \<and> u \<le> 1" by (rule conjI)
  note j = i[THEN mp, OF u01]
  show ?thesis
    apply (rule exI[of _ uber], rule exI[of _ max_res], rule exI[of _ full_res],
           rule exI[of _ sCol], rule exI[of _ uv], rule exI[of _ u], rule exI[of _ v],
           rule exI[of _ u'], rule exI[of _ v'])
    apply (intro conjI)
    apply (rule m rounding_binary64 a b c mr fr s sv uv e u0 u1 j[THEN conjunct1] j[THEN conjunct2])+
    done
qed

theorem uv_partition_counterexample:
  "returned_table (merge_materials binary64 nearest_scale [ex_plain, ex_plain]
        [[1 - 1 / 2 ^ 53, 0]] [[0, 0, 0]] [1])
     = Some ([[1, 0]], [[0, 0, 0]])
   \<and> max_res_loop None (List.product [ex_plain, ex_plain] textures) = Inr (Some (1, 1))
   \<and> compute_full_res (1, 1) (length [ex_plain, ex_plain]) = Inr (1, 2)
   \<and> binary64 (binary64 (real 2) / binary64 (real 1)) = 2
   \<and> py_get [[1 - 1 / 2 ^ 53, 0 :: real]] ([[0, 0, 0]] ! 0 ! 0) = Inr [1 - 1 / 2 ^ 53, 0]
   \<and> (0::real) \<le> 1 - 1 / 2 ^ 53 \<and> (1 - 1 / 2 ^ 53 :: real) < 1
   \<and> py_get [[1, 0 :: real]] ([[0, 0, 0]] ! 0 ! 0) = Inr [1, 0]
   \<and> \<not> ((1::real) < (of_int ([1] ! 0) + 1) / 2)
   \<and> returned_table (merge_materials exact nearest_scale [ex_plain, ex_plain]
        [[0, 0], [1, 0], [0, 1]] [[0, 1, 2], [0, 1, 2]] [0, 1])
     = Some ([[0, 0], [1 / 2, 0], [0, 1], [1 / 2, 0], [1, 0], [1 / 2, 1]], [[0, 1, 2], [3, 4, 5]])
   \<and> py_get [[0, 0], [1, 0], [0, 1::real]] ([[0, 1, 2], [0, 1, 2]] ! 0 ! 1) = Inr [1, 0]
   \<and> py_get [[0, 0], [1 / 2, 0], [0, 1], [1 / 2, 0], [1, 0], [1 / 2, 1::real]]
         ([[0, 1, 2], [3, 4, 5]] ! 0 ! 1) = Inr [1 / 2, 0]
   \<and> \<not> ((1 / 2 :: real) < (of_int ([0, 1] ! 0) + 1) / exact (exact (real 2) / exact (real 1)))"
  by (simp add: eval_defs returned_table_def binary64_small binary64_tie_numeral)

subsection \<open>C5: normal maps are made uniform before the check\<close>

text \<open>
  C5. No merge call, on any input, fails the assertion on normal-map presence.
  When some materials have a normal map and some have none (each of the latter
  having its kd texture, which the patch reads), the call first gives each
  material without one the 1 by 1 buffer holding \<open>(0, 0, 1)\<close>; and when the call
  returns, the merged record has one normal buffer to which every material
  contributes its cell: with a resampling that returns images of the resolution
  asked for, the buffer has the canvas resolution, and cell \<open>i\<close> of it (rows below
  the maximum height, columns \<open>i * W\<close> to \<open>(i + 1) * W\<close> for the maximum width
  \<open>W\<close>) is the resampled normal map of material \<open>i\<close>, or the resampled flat
  normal where material \<open>i\<close> had none.
\<close>

theorem normal_normalisation:
  "snd (merge_materials rnd sc ms tc tf mf) \<noteq> Inl (AssertionError normal_message)
   \<and> (mixed_normals ms \<and> (\<forall>m\<in>set ms. m ''normal'' = None \<longrightarrow> (\<exists>t. m ''kd'' = Some (Tex t))) \<longrightarrow>
        fst (merge_materials rnd sc ms tc tf mf) = map with_flat_normal ms
      \<and> (\<forall>m\<in>set ms. m ''normal'' = None \<longrightarrow>
            with_flat_normal m ''normal'' = Some (Tex (Texture2D [[[0, 0, 1]]] [])))
      \<and> (\<forall>uber d tf'. snd (merge_materials rnd sc ms tc tf mf) = Inr (uber, d, tf') \<longrightarrow>
            (\<exists>max_res full_res t.
                max_res_loop None (List.product (map with_flat_normal ms) textures) = Inr (Some max_res)
              \<and> compute_full_res max_res (length ms) = Inr full_res
              \<and> uber ''normal'' = Some (Tex t)
              \<and> (scales_to_size sc \<longrightarrow>
                   getRes t = full_res
                 \<and> (\<forall>i<length ms.
                       ((ms ! i) ''normal'' = None \<longrightarrow>
                           atlas_cell (data t) max_res i = sc [[[0, 0, 1]]] max_res)
                     \<and> (\<forall>ti. (ms ! i) ''normal'' = Some (Tex ti) \<longrightarrow>
                           atlas_cell (data t) max_res i = sc (data ti) max_res))))))"
proof (intro conjI impI allI)
  show "snd (merge_materials rnd sc ms tc tf mf) \<noteq> Inl (AssertionError normal_message)"
    by (rule merge_never_normal_error)
next
  assume "mixed_normals ms \<and> (\<forall>m\<in>set ms. m ''normal'' = None \<longrightarrow> (\<exists>t. m ''kd'' = Some (Tex t)))"
  then show "fst (merge_materials rnd sc ms tc tf mf) = map with_flat_normal ms"
    using merge_mixed_result(1) by blast
next
  assume "mixed_normals ms \<and> (\<forall>m\<in>set ms. m ''normal'' = None \<longrightarrow> (\<exists>t. m ''kd'' = Some (Tex t)))"
  then show "\<forall>m\<in>set ms. m ''normal'' = None \<longrightarrow>
            with_flat_normal m ''normal'' = Some (Tex (Texture2D [[[0, 0, 1]]] []))"
    using merge_mixed_result(2) by blast
next
  fix uber d tf'
  assume "mixed_normals ms \<and> (\<forall>m\<in>set ms. m ''normal'' = None \<longrightarrow> (\<exists>t. m ''kd'' = Some (Tex t)))"
    and "snd (merge_materials rnd sc ms tc tf mf) = Inr (uber, d, tf')"
  then show "\<exists>max_res full_res t.
                max_res_loop None (List.product (map with_flat_normal ms) textures) = Inr (Some max_res)
              \<and> compute_full_res max_res (length ms) = Inr full_res
              \<and> uber ''normal'' = Some (Tex t)
              \<and> (scales_to_size sc \<longrightarrow>
                   getRes t = full_res
                 \<and> (\<forall>i<length ms.
                       ((ms ! i) ''normal'' = None \<longrightarrow>
                           atlas_cell (data t) max_res i = sc [[[0, 0, 1]]] max_res)
                     \<and> (\<forall>ti. (ms ! i) ''normal'' = Some (Tex ti) \<longrightarrow>
                           atlas_cell (data t) max_res i = sc (data ti) max_res)))"
    by (elim conjE) (rule merge_mixed_cells)
qed

theorem normal_normalisation_witness:
  "\<exists>uber max_res full_res t.
     snd (merge_materials exact nearest_scale [ex_plain, ex_bumpy] [[0, 0], [1, 0], [0, 1]]
            [[0, 1, 2], [0, 1, 2]] [0, 1]) \<noteq> Inl (AssertionError normal_message)
   \<and> mixed_normals [ex_plain, ex_bumpy]
   \<and> ex_plain ''normal'' = None
   \<and> fst (merge_materials exact nearest_scale [ex_plain, ex_bumpy] [[0, 0], [1, 0], [0, 1]]
            [[0, 1, 2], [0, 1, 2]] [0, 1]) = map with_flat_normal [ex_plain, ex_bumpy]
   \<and> with_flat_normal ex_plain ''normal'' = Some (Tex (Texture2D [[[0, 0, 1]]] []))
   \<and> snd (merge_materials exact nearest_scale [ex_plain, ex_bumpy] [[0, 0], [1, 0], [0, 1]]
            [[0, 1, 2], [0, 1, 2]] [0, 1])
       = Inr (uber, [[0, 0], [1 / 2, 0], [0, 1], [1 / 2, 0], [1, 0], [1 / 2, 1]],
              [[0, 1, 2], [3, 4, 5]])
   \<and> max_res_loop None (List.product (map with_flat_normal [ex_plain, ex_bumpy]) textures)
       = Inr (Some max_res)
   \<and> max_res = (1, 2)
   \<and> compute_full_res max_res (length [ex_plain, ex_bumpy]) = Inr full_res
   \<and> uber ''normal'' = Some (Tex t)
   \<and> t = Texture2D [[[0, 0, 1], [0, 0, 1], [0, 0, 1], [0, 1, 0]]] []
   \<and> scales_to_size nearest_scale
   \<and> getRes t = full_res
   \<and> atlas_cell (data t) max_res 0 = nearest_scale [[[0, 0, 1]]] max_res
   \<and> atlas_cell (data t) max_res 0 = [[[0, 0, 1], [0, 0, 1]]]
   \<and> atlas_cell (data t) max_res 1 = nearest_scale [[[0, 0, 1], [0, 1, 0]]] max_res
   \<and> atlas_cell (data t) max_res 1 = [[[0, 0, 1], [0, 1, 0]]]"
proof -
  from ex_merge_mixed obtain uber where
    m: "snd (merge_materials exact nearest_scale [ex_plain, ex_bumpy] [[0, 0], [1, 0], [0, 1]]
          [[0, 1, 2], [0, 1, 2]] [0, 1])
        = Inr (uber, [[0, 0], [1 / 2, 0], [0, 1], [1 / 2, 0], [1, 0], [1 / 2, 1]],
               [[0, 1, 2], [3, 4, 5]])"
    and un: "uber ''normal'' = Some (Tex (Texture2D [[[0, 0, 1], [0, 0, 1], [0, 0, 1], [0, 1, 0]]] []))"
    by auto
  have n: "ex_plain ''normal'' = None" by (simp add: ex_plain_def)
  have h: "mixed_normals [ex_plain, ex_bumpy]
      \<and> (\<forall>m\<in>set [ex_plain, ex_bumpy]. m ''normal'' = None \<longrightarrow> (\<exists>t. m ''kd'' = Some (Tex t)))"
    using ex_mixed ex_kd by (intro conjI)
  note t = normal_normalisation[of exact nearest_scale "[ex_plain, ex_bumpy]" "[[0, 0], [1, 0], [0, 1]]"
             "[[0, 1, 2], [0, 1, 2]]" "[0, 1]"]
  note a1 = t[THEN conjunct1]
  note t2 = t[THEN conjunct2, THEN mp, OF h]
  note a2 = t2[THEN conjunct1]
  have p: "ex_plain \<in> set [ex_plain, ex_bumpy]" by simp
  note a3 = t2[THEN conjunct2, THEN conjunct1, THEN bspec, OF p, THEN mp, OF n]
  from t2[THEN conjunct2, THEN conjunct2, THEN spec, THEN spec, THEN spec, THEN mp, OF m]
  obtain max_res full_res t where
    mr: "max_res_loop None (List.product (map with_flat_normal [ex_plain, ex_bumpy]) textures)
           = Inr (Some max_res)"
    and fr: "compute_full_res max_res (length [ex_plain, ex_bumpy]) = Inr full_res"
    and u: "uber ''normal'' = Some (Tex t)"
    and c: "scales_to_size nearest_scale \<longrightarrow>
                   getRes t = full_res
                 \<and> (\<forall>i<length [ex_plain, ex_bumpy].
                       (([ex_plain, ex_bumpy] ! i) ''normal'' = None \<longrightarrow>
                           atlas_cell (data t) max_res i = nearest_scale [[[0, 0, 1]]] max_res)
                     \<and> (\<forall>ti. ([ex_plain, ex_bumpy] ! i) ''normal'' = Some (Tex ti) \<longrightarrow>
                           atlas_cell (data t) max_res i = nearest_scale (data ti) max_res))"
    by (elim exE conjE)
  have mv: "max_res = (1, 2)"
    using mr by (auto simp: eval_defs with_flat_normal_def numeral_2_eq_2)
  from u un have tv: "t = Texture2D [[[0, 0, 1], [0, 0, 1], [0, 0, 1], [0, 1, 0]]] []" by simp
  note c1 = c[THEN mp, OF nearest_scale_size]
  note g = c1[THEN conjunct1]
  have i0: "(0::nat) < length [ex_plain, ex_bumpy]" and i1: "(1::nat) < length [ex_plain, ex_bumpy]"
    by simp_all
  have n0: "([ex_plain, ex_bumpy] ! 0) ''normal'' = None" by (simp add: ex_plain_def)
  have n1: "([ex_plain, ex_bumpy] ! 1) ''normal'' = Some (Tex (Texture2D [[[0, 0, 1], [0, 1, 0]]] []))"
    by (simp add: ex_bumpy_def)
  note b0 = c1[THEN conjunct2, THEN spec, THEN mp, OF i0, THEN conjunct1, THEN mp, OF n0]
  note b1 = c1[THEN conjunct2, THEN spec, THEN mp, OF i1, THEN conjunct2, THEN spec, THEN mp, OF n1]
  have b1': "atlas_cell (data t) max_res 1 = nearest_scale [[[0, 0, 1], [0, 1, 0]]] max_res"
    using b1 by simp
  have v0: "atlas_cell (data t) max_res 0 = [[[0, 0, 1], [0, 0, 1]]]"
    by (simp add: tv mv atlas_cell_def)
  have v1: "atlas_cell (data t) max_res 1 = [[[0, 0, 1], [0, 1, 0]]]"
    by (simp add: tv mv atlas_cell_def)
  show ?thesis
    apply (rule exI[of _ uber], rule exI[of _ max_res], rule exI[of _ full_res], rule exI[of _ t])
    apply (intro conjI)
    apply (rule a1 ex_mixed n a2 a3 m mr mv fr u tv nearest_scale_size g b0 v0 b1' v1)+
    done
qed

subsection \<open>C6: when the merge raises and when it returns\<close>




subsection \<open>C7: what a merge call does to its input records\<close>

text \<open>
  C7, as the code has it. A merge call changes no key of an input record other than
  \<open>normal\<close> and leaves every record that has a normal map as it was. When the
  presence of normal maps is uniform over the set, no record is changed. When it is
  mixed and the call returns, every record without a normal map has been given the
  flat 1 by 1 normal map: the patch writes into the caller's records.
\<close>

theorem inputs_after_merge:
  "length (fst (merge_materials rnd sc ms tc tf mf)) = length ms
   \<and> (\<forall>i<length ms. \<forall>k. k \<noteq> ''normal'' \<longrightarrow>
         (fst (merge_materials rnd sc ms tc tf mf) ! i) k = (ms ! i) k)
   \<and> (\<forall>i<length ms. (ms ! i) ''normal'' \<noteq> None \<longrightarrow>
         fst (merge_materials rnd sc ms tc tf mf) ! i = ms ! i)
   \<and> (\<not> mixed_normals ms \<longrightarrow> fst (merge_materials rnd sc ms tc tf mf) = ms)
   \<and> (mixed_normals ms \<longrightarrow> (\<forall>res. snd (merge_materials rnd sc ms tc tf mf) = Inr res \<longrightarrow>
         fst (merge_materials rnd sc ms tc tf mf) = map with_flat_normal ms))"
proof -
  note f = merge_materials_fst[of rnd sc ms tc tf mf]
  from f have each: "\<forall>i<length ms. fst (merge_materials rnd sc ms tc tf mf) ! i = ms ! i
          \<or> fst (merge_materials rnd sc ms tc tf mf) ! i = with_flat_normal (ms ! i)" by blast
  have a: "\<forall>i<length ms. \<forall>k. k \<noteq> ''normal'' \<longrightarrow>
         (fst (merge_materials rnd sc ms tc tf mf) ! i) k = (ms ! i) k"
    using each with_flat_normal_other by metis
  have b: "\<forall>i<length ms. (ms ! i) ''normal'' \<noteq> None \<longrightarrow>
         fst (merge_materials rnd sc ms tc tf mf) ! i = ms ! i"
    using each with_flat_normal_id by metis
  from f a b show ?thesis by blast
qed

theorem inputs_after_merge_witness:
  "\<exists>res.
     length (fst (merge_materials exact nearest_scale [ex_plain, ex_bumpy] [[0, 0], [1, 0], [0, 1]]
                    [[0, 1, 2], [0, 1, 2]] [0, 1])) = length [ex_plain, ex_bumpy]
   \<and> (0::nat) < length [ex_plain, ex_bumpy] \<and> ''kd'' \<noteq> ''normal''
   \<and> (fst (merge_materials exact nearest_scale [ex_plain, ex_bumpy] [[0, 0], [1, 0], [0, 1]]
              [[0, 1, 2], [0, 1, 2]] [0, 1]) ! 0) ''kd'' = ([ex_plain, ex_bumpy] ! 0) ''kd''
   \<and> (1::nat) < length [ex_plain, ex_bumpy] \<and> ([ex_plain, ex_bumpy] ! 1) ''normal'' \<noteq> None
   \<and> fst (merge_materials exact nearest_scale [ex_plain, ex_bumpy] [[0, 0], [1, 0], [0, 1]]
              [[0, 1, 2], [0, 1, 2]] [0, 1]) ! 1 = [ex_plain, ex_bumpy] ! 1
   \<and> \<not> mixed_normals [ex_plain, ex_plain]
   \<and> fst (merge_materials exact nearest_scale [ex_plain, ex_plain] [[0, 0], [1, 0], [0, 1]]
              [[0, 1, 2], [0, 1, 2]] [0, 1]) = [ex_plain, ex_plain]
   \<and> mixed_normals [ex_plain, ex_bumpy]
   \<and> snd (merge_materials exact nearest_scale [ex_plain, ex_bumpy] [[0, 0], [1, 0], [0, 1]]
            [[0, 1, 2], [0, 1, 2]] [0, 1]) = Inr res
   \<and> fst (merge_materials exact nearest_scale [ex_plain, ex_bumpy] [[0, 0], [1, 0], [0, 1]]
            [[0, 1, 2], [0, 1, 2]] [0, 1]) = map with_flat_normal [ex_plain, ex_bumpy]"
proof -
  from ex_merge_mixed obtain res where
    m: "snd (merge_materials exact nearest_scale [ex_plain, ex_bumpy] [[0, 0], [1, 0], [0, 1]]
          [[0, 1, 2], [0, 1, 2]] [0, 1]) = Inr res"
    by auto
  have l: "(0::nat) < length [ex_plain, ex_bumpy]" "(1::nat) < length [ex_plain, ex_bumpy]" by simp_all
  have k: "''kd'' \<noteq> ''normal''" by simp
  have n: "([ex_plain, ex_bumpy] ! 1) ''normal'' \<noteq> None" by (simp add: ex_bumpy_def)
  have u: "\<not> mixed_normals [ex_plain, ex_plain]" by (simp add: mixed_normals_def ex_plain_def)
  note t1 = inputs_after_merge[of exact nearest_scale "[ex_plain, ex_bumpy]" "[[0, 0], [1, 0], [0, 1]]"
             "[[0, 1, 2], [0, 1, 2]]" "[0, 1]"]
  note t2 = inputs_after_merge[of exact nearest_scale "[ex_plain, ex_plain]" "[[0, 0], [1, 0], [0, 1]]"
             "[[0, 1, 2], [0, 1, 2]]" "[0, 1]"]
  note a1 = t1[THEN conjunct1]
  note a2 = t1[THEN conjunct2, THEN conjunct1, THEN spec, THEN mp, OF l(1), THEN spec, THEN mp, OF k]
  note a3 = t1[THEN conjunct2, THEN conjunct2, THEN conjunct1, THEN spec, THEN mp, OF l(2), THEN mp, OF n]
  note a4 = t2[THEN conjunct2, THEN conjunct2, THEN conjunct2, THEN conjunct1, THEN mp, OF u]
  note a5 = t1[THEN conjunct2, THEN conjunct2, THEN conjunct2, THEN conjunct2, THEN mp, OF ex_mixed,
               THEN spec, THEN mp, OF m]
  show ?thesis
    apply (rule exI[of _ res])
    apply (intro conjI)
    apply (rule a1 l k a2 n a3 u a4 ex_mixed m a5)+
    done
qed

theorem inputs_after_merge_counterexample:
  "returned_table (merge_materials exact nearest_scale [ex_plain, ex_bumpy] [[0, 0], [1, 0], [0, 1]]
        [[0, 1, 2], [0, 1, 2]] [0, 1])
     = Some ([[0, 0], [1 / 2, 0], [0, 1], [1 / 2, 0], [1, 0], [1 / 2, 1]], [[0, 1, 2], [3, 4, 5]])
   \<and> ([ex_plain, ex_bumpy] ! 0) ''normal'' = None
   \<and> (fst (merge_materials exact nearest_scale [ex_plain, ex_bumpy] [[0, 0], [1, 0], [0, 1]]
              [[0, 1, 2], [0, 1, 2]] [0, 1]) ! 0) ''normal''
       = Some (Tex (Texture2D [[[0, 0, 1]]] []))"
  by (simp add: eval_defs returned_table_def)

subsection \<open>C8: string-valued and numeric keys\<close>




subsection \<open>C9: the occlusion channel of ks\<close>

text \<open>
  C9. Whenever \<^verbatim>\<open>load_mtl\<close> with \<^verbatim>\<open>clear_ks\<close> enabled returns, every returned
  material has a ks texture that comes from the texture loaded for its record (the
  image file named by \<open>map_ks\<close>, or the 1 by 1 buffer of the constant \<open>ks\<close>) as
  follows: it has the same resolution levels, at every level every pixel has the
  value 0 in its first channel, whatever the loaded value was, and the other
  channels of every pixel are those of the loaded texture.
\<close>

theorem occlusion_cleared:
  assumes "load_mtl py_float load_texture2D srgb_to_rgb mtl_path lines True = Inr mats"
      and "mat \<in> set mats"
  shows "\<exists>recs rec t0 t.
           parse_lines py_float [] lines = Inr recs \<and> rec \<in> set recs
         \<and> ((\<exists>fn. rec ''map_ks'' = Some (Str fn)
                 \<and> load_texture2D (os_path_join mtl_path fn) None (Some 3) = Inr t0)
            \<or> (rec ''map_ks'' = None
                 \<and> (\<exists>xs. rec ''ks'' = Some (Vec xs) \<and> t0 = Texture2D [[xs]] [])))
         \<and> mat ''ks'' = Some (Tex t)
         \<and> length (getMips t) = length (getMips t0)
         \<and> (\<forall>l<length (getMips t). \<forall>row\<in>set (getMips t ! l). \<forall>p\<in>set row. p \<noteq> [] \<and> p ! 0 = 0)
         \<and> getMips t = map (map (map (\<lambda>p. 0 # tl p))) (getMips t0)"
proof -
  from assms(1) obtain recs where p: "parse_lines py_float [] lines = Inr recs"
    and c: "convert_materials load_texture2D srgb_to_rgb mtl_path True recs = Inr mats"
    by (auto simp: load_mtl_def split: sum.splits)
  from convert_materials_each[OF c assms(2)] obtain rec where r: "rec \<in> set recs"
    and cm: "convert_material load_texture2D srgb_to_rgb mtl_path True rec = Inr mat" by blast
  from convert_material_ks[OF cm] obtain t0 t where
    l: "load_slot load_texture2D mtl_path rec ''map_ks'' ''ks'' (Some 3) = Inr t0"
    and ct: "clear_texture t0 = Inr t" and m: "mat ''ks'' = Some (Tex t)" by blast
  note g = clear_texture_Inr[OF ct]
  have len: "length (getMips t) = length (getMips t0)" unfolding g(1) by simp
  have z: "\<forall>l<length (getMips t). \<forall>row\<in>set (getMips t ! l). \<forall>p\<in>set row. p \<noteq> [] \<and> p ! 0 = 0"
    unfolding g(1) by auto
  from p r load_slot_cases[OF l] m len z g(1) show ?thesis by blast
qed

theorem occlusion_cleared_witness:
  "\<exists>mat recs rec t0 t.
     load_mtl ex_float ex_loader (\<lambda>t. t) ''dir''
        [''newmtl a'', ''Kd 1 1 1'', ''map_Ks ks.png''] True = Inr [mat]
   \<and> mat \<in> set [mat]
   \<and> parse_lines ex_float [] [''newmtl a'', ''Kd 1 1 1'', ''map_Ks ks.png''] = Inr recs
   \<and> rec \<in> set recs
   \<and> ((\<exists>fn. rec ''map_ks'' = Some (Str fn)
           \<and> ex_loader (os_path_join ''dir'' fn) None (Some 3) = Inr t0)
      \<or> (rec ''map_ks'' = None
           \<and> (\<exists>xs. rec ''ks'' = Some (Vec xs) \<and> t0 = Texture2D [[xs]] [])))
   \<and> mat ''ks'' = Some (Tex t)
   \<and> t = Texture2D [[[0, 6, 7], [0, 9, 10]]] [[[[0, 4, 5]]]]
   \<and> getMips t = map (map (map (\<lambda>p. 0 # tl p))) (getMips t0)"
proof -
  have "\<exists>mat. load_mtl ex_float ex_loader (\<lambda>t. t) ''dir''
          [''newmtl a'', ''Kd 1 1 1'', ''map_Ks ks.png''] True = Inr [mat]
        \<and> mat ''ks'' = Some (Tex (Texture2D [[[0, 6, 7], [0, 9, 10]]] [[[[0, 4, 5]]]]))"
    by (simp add: load_mtl_def parse_defs convert_material_def load_slot_def ex_loader_def
        os_path_join_def texture_of_constant_def clear_texture_def clear_channel_def getMips_def)
  then obtain mat where
    l: "load_mtl ex_float ex_loader (\<lambda>t. t) ''dir''
          [''newmtl a'', ''Kd 1 1 1'', ''map_Ks ks.png''] True = Inr [mat]"
    and k: "mat ''ks'' = Some (Tex (Texture2D [[[0, 6, 7], [0, 9, 10]]] [[[[0, 4, 5]]]]))"
    by (elim exE conjE)
  have i: "mat \<in> set [mat]" by simp
  from occlusion_cleared[OF l i] obtain recs rec t0 t where
    a: "parse_lines ex_float [] [''newmtl a'', ''Kd 1 1 1'', ''map_Ks ks.png''] = Inr recs"
    and b: "rec \<in> set recs"
    and c: "(\<exists>fn. rec ''map_ks'' = Some (Str fn)
           \<and> ex_loader (os_path_join ''dir'' fn) None (Some 3) = Inr t0)
      \<or> (rec ''map_ks'' = None
           \<and> (\<exists>xs. rec ''ks'' = Some (Vec xs) \<and> t0 = Texture2D [[xs]] []))"
    and d: "mat ''ks'' = Some (Tex t)"
    and e: "getMips t = map (map (map (\<lambda>p. 0 # tl p))) (getMips t0)"
    by (elim exE conjE)
  from d k have f: "t = Texture2D [[[0, 6, 7], [0, 9, 10]]] [[[[0, 4, 5]]]]" by simp
  show ?thesis
    apply (rule exI[of _ mat], rule exI[of _ recs], rule exI[of _ rec], rule exI[of _ t0],
           rule exI[of _ t])
    apply (intro conjI)
    apply (rule l i a b c d f e)+
    done
qed

subsection \<open>C10: lines before the first record\<close>

text \<open>
  C10. Lines before the first \<open>newmtl\<close> line produce no record, no stored key and no
  error: parsing the file gives what parsing it from the first \<open>newmtl\<close> line on
  gives. A parse that succeeds returns one record for each \<open>newmtl\<close> line, and so
  does \<^verbatim>\<open>load_mtl\<close>; each record holds the key \<open>name\<close> and the keys of the lines
  between its \<open>newmtl\<close> line and the next, and no other key. The key of a line is
  its first field, lowercased, and a \<open>newmtl\<close> line is one whose key contains
  \<open>newmtl\<close>; a line of white space only has the empty key.
\<close>

theorem lines_before_first_record:
  "((\<forall>l\<in>set pre. \<not> is_newmtl l) \<longrightarrow>
      parse_lines py_float [] (pre @ rest) = parse_lines py_float [] rest
    \<and> group_lines [] (pre @ rest) = group_lines [] rest)
   \<and> concat (group_lines [] lines) = dropWhile (\<lambda>l. \<not> is_newmtl l) lines
   \<and> (\<forall>g\<in>set (group_lines [] lines).
         g \<noteq> [] \<and> is_newmtl (hd g) \<and> (\<forall>l\<in>set (tl g). \<not> is_newmtl l))
   \<and> (\<forall>ms. parse_lines py_float [] lines = Inr ms \<longrightarrow>
         length ms = length (filter is_newmtl lines)
       \<and> length (group_lines [] lines) = length ms
       \<and> (\<forall>i<length ms. group_lines [] lines ! i \<noteq> []
             \<and> dom (ms ! i) = insert ''name'' (key_of ` set (tl (group_lines [] lines ! i)))))
   \<and> (\<forall>mats. load_mtl py_float ld srgb path lines clear = Inr mats \<longrightarrow>
         length mats = length (filter is_newmtl lines))
   \<and> (line = p @ unsplit key fs @ q \<and> (\<forall>ch\<in>set (p @ q). white ch) \<and> fields_ok key fs
        \<and> key \<noteq> [] \<and> \<not> white (hd key) \<and> \<not> white (last (unsplit key fs)) \<longrightarrow>
         key_of line = spec_lower key
       \<and> is_newmtl line = (\<exists>a b. spec_lower key = a @ ''newmtl'' @ b))
   \<and> ((\<forall>ch\<in>set line. white ch) \<longrightarrow> key_of line = [] \<and> \<not> is_newmtl line)"
proof (intro conjI impI allI)
  assume "line = p @ unsplit key fs @ q \<and> (\<forall>ch\<in>set (p @ q). white ch) \<and> fields_ok key fs
        \<and> key \<noteq> [] \<and> \<not> white (hd key) \<and> \<not> white (last (unsplit key fs))"
  then show "key_of line = spec_lower key"
    by (elim conjE) (rule key_of_fields(1))
next
  assume "line = p @ unsplit key fs @ q \<and> (\<forall>ch\<in>set (p @ q). white ch) \<and> fields_ok key fs
        \<and> key \<noteq> [] \<and> \<not> white (hd key) \<and> \<not> white (last (unsplit key fs))"
  then show "is_newmtl line = (\<exists>a b. spec_lower key = a @ ''newmtl'' @ b)"
    by (elim conjE) (rule key_of_fields(2))
next
  assume "\<forall>ch\<in>set line. white ch"
  then show "key_of line = []" by (rule key_of_blank(1))
next
  assume "\<forall>ch\<in>set line. white ch"
  then show "\<not> is_newmtl line" by (rule key_of_blank(2))
next
  fix mats assume "load_mtl py_float ld srgb path lines clear = Inr mats"
  then show "length mats = length (filter is_newmtl lines)" by (rule load_mtl_length)
next
  assume "\<forall>l\<in>set pre. \<not> is_newmtl l"
  then show "parse_lines py_float [] (pre @ rest) = parse_lines py_float [] rest"
    by (rule parse_lines_skip)
next
  show "concat (group_lines [] lines) = dropWhile (\<lambda>l. \<not> is_newmtl l) lines"
    by (simp add: group_lines_concat)
next
  have "groups_ok (group_lines [] lines)"
    by (rule group_lines_ok) (simp add: groups_ok_def)
  then show "\<forall>g\<in>set (group_lines [] lines).
         g \<noteq> [] \<and> is_newmtl (hd g) \<and> (\<forall>l\<in>set (tl g). \<not> is_newmtl l)"
    by (simp only: groups_ok_def)
next
  assume "\<forall>l\<in>set pre. \<not> is_newmtl l"
  then show "group_lines [] (pre @ rest) = group_lines [] rest"
    by (rule group_lines_skip)
next
  fix ms assume p: "parse_lines py_float [] lines = Inr ms"
  note inv = parse_lines_inv[OF p record_inv_empty, unfolded record_inv_def]
  from inv show "length (group_lines [] lines) = length ms" by simp
  with group_lines_length[of "[]" lines] show "length ms = length (filter is_newmtl lines)" by simp
next
  fix ms i assume p: "parse_lines py_float [] lines = Inr ms" and i: "i < length ms"
  note inv = parse_lines_inv[OF p record_inv_empty, unfolded record_inv_def]
  from inv i show "group_lines [] lines ! i \<noteq> []" by blast
  from inv i show "dom (ms ! i) = insert ''name'' (key_of ` set (tl (group_lines [] lines ! i)))"
    by blast
qed

theorem lines_before_first_record_witness:
  "\<exists>mat.
     \<not> is_newmtl ''Kd 1 2'' \<and> \<not> is_newmtl ''junk x''
   \<and> those (map ex_float (data_of ''junk x'')) = None
   \<and> parse_lines ex_float [] ([''Kd 1 2'', ''junk x''] @ [''NEWMTL a'', ''Kd 1 1 1'', ''map_Kd t.png'', ''newmtl b'', ''Ns 2'']) = parse_lines ex_float [] [''NEWMTL a'', ''Kd 1 1 1'', ''map_Kd t.png'', ''newmtl b'', ''Ns 2'']
   \<and> parse_lines ex_float [] ([''Kd 1 2'', ''junk x''] @ [''NEWMTL a'', ''Kd 1 1 1'', ''map_Kd t.png'', ''newmtl b'', ''Ns 2'']) = Inr [[''name'' \<mapsto> Str ''a'', ''kd'' \<mapsto> Vec [1, 1, 1], ''map_kd'' \<mapsto> Str ''t.png''], [''name'' \<mapsto> Str ''b'', ''ns'' \<mapsto> Str ''2'']]
   \<and> length [[''name'' \<mapsto> Str ''a'', ''kd'' \<mapsto> Vec [1, 1, 1], ''map_kd'' \<mapsto> Str ''t.png''], [''name'' \<mapsto> Str ''b'', ''ns'' \<mapsto> Str ''2'']] = length (filter is_newmtl ([''Kd 1 2'', ''junk x''] @ [''NEWMTL a'', ''Kd 1 1 1'', ''map_Kd t.png'', ''newmtl b'', ''Ns 2'']))
   \<and> (0::nat) < length [[''name'' \<mapsto> Str ''a'', ''kd'' \<mapsto> Vec [1, 1, 1], ''map_kd'' \<mapsto> Str ''t.png''], [''name'' \<mapsto> Str ''b'', ''ns'' \<mapsto> Str ''2'']]
   \<and> dom ([[''name'' \<mapsto> Str ''a'', ''kd'' \<mapsto> Vec [1, 1, 1], ''map_kd'' \<mapsto> Str ''t.png''], [''name'' \<mapsto> Str ''b'', ''ns'' \<mapsto> Str ''2'']] ! 0) = insert ''name'' (key_of ` set (tl (group_lines [] ([''Kd 1 2'', ''junk x''] @ [''NEWMTL a'', ''Kd 1 1 1'', ''map_Kd t.png'', ''newmtl b'', ''Ns 2'']) ! 0)))
   \<and> group_lines [] ([''Kd 1 2'', ''junk x''] @ [''NEWMTL a'', ''Kd 1 1 1'', ''map_Kd t.png'', ''newmtl b'', ''Ns 2'']) ! 0 = [''NEWMTL a'', ''Kd 1 1 1'', ''map_Kd t.png'']
   \<and> load_mtl ex_float ex_loader (\<lambda>t. t) ''dir'' [''Kd 2'', ''newmtl a'', ''Kd 1 1 1'', ''Ks 1 1 1''] True = Inr [mat]
   \<and> length [mat] = length (filter is_newmtl [''Kd 2'', ''newmtl a'', ''Kd 1 1 1'', ''Ks 1 1 1''])
   \<and> ''NEWMTL a'' = [] @ unsplit ''NEWMTL'' [(CHR '' '', 0, ''a'')] @ []
   \<and> fields_ok ''NEWMTL'' [(CHR '' '', 0, ''a'')]
   \<and> key_of ''NEWMTL a'' = spec_lower ''NEWMTL''
   \<and> spec_lower ''NEWMTL'' = ''newmtl''
   \<and> is_newmtl ''NEWMTL a''
   \<and> white (CHR 0x0A) \<and> key_of [CHR 0x0A] = [] \<and> \<not> is_newmtl [CHR 0x0A]"
proof -
  have n: "\<not> is_newmtl ''Kd 1 2''" "\<not> is_newmtl ''junk x''" by (simp_all add: parse_defs)
  then have hp: "\<forall>l\<in>set [''Kd 1 2'', ''junk x'']. \<not> is_newmtl l" by simp
  have j: "those (map ex_float (data_of ''junk x'')) = None" by (simp add: parse_defs)
  have p: "parse_lines ex_float [] ([''Kd 1 2'', ''junk x''] @ [''NEWMTL a'', ''Kd 1 1 1'', ''map_Kd t.png'', ''newmtl b'', ''Ns 2'']) = Inr [[''name'' \<mapsto> Str ''a'', ''kd'' \<mapsto> Vec [1, 1, 1], ''map_kd'' \<mapsto> Str ''t.png''], [''name'' \<mapsto> Str ''b'', ''ns'' \<mapsto> Str ''2'']]" by (simp add: parse_defs)
  have i: "(0::nat) < length [[''name'' \<mapsto> Str ''a'', ''kd'' \<mapsto> Vec [1, 1, 1], ''map_kd'' \<mapsto> Str ''t.png''], [''name'' \<mapsto> Str ''b'', ''ns'' \<mapsto> Str ''2'']]" by simp
  have g: "group_lines [] ([''Kd 1 2'', ''junk x''] @ [''NEWMTL a'', ''Kd 1 1 1'', ''map_Kd t.png'', ''newmtl b'', ''Ns 2'']) ! 0 = [''NEWMTL a'', ''Kd 1 1 1'', ''map_Kd t.png'']"
    by (simp add: parse_defs)
  note t = lines_before_first_record[where pre = "[''Kd 1 2'', ''junk x'']" and py_float = ex_float and rest = "[''NEWMTL a'', ''Kd 1 1 1'', ''map_Kd t.png'', ''newmtl b'', ''Ns 2'']"
      and lines = "[''Kd 1 2'', ''junk x''] @ [''NEWMTL a'', ''Kd 1 1 1'', ''map_Kd t.png'', ''newmtl b'', ''Ns 2'']" and line = "''NEWMTL a''" and p = "[]" and key = "''NEWMTL''"
      and fs = "[(CHR '' '', 0, ''a'')]" and q = "[]"]
  note a = t[THEN conjunct1, THEN mp, OF hp, THEN conjunct1]
  note b = t[THEN conjunct2, THEN conjunct2, THEN conjunct2, THEN conjunct1, THEN spec, THEN mp, OF p]
  note b1 = b[THEN conjunct1]
  note b3 = b[THEN conjunct2, THEN conjunct2, THEN spec, THEN mp, OF i, THEN conjunct2]
  have "\<exists>mat. load_mtl ex_float ex_loader (\<lambda>t. t) ''dir'' [''Kd 2'', ''newmtl a'', ''Kd 1 1 1'', ''Ks 1 1 1''] True = Inr [mat]"
    by (simp add: load_mtl_def parse_defs convert_material_def load_slot_def ex_loader_def
        os_path_join_def texture_of_constant_def clear_texture_def clear_channel_def getMips_def)
  then obtain mat where l: "load_mtl ex_float ex_loader (\<lambda>t. t) ''dir'' [''Kd 2'', ''newmtl a'', ''Kd 1 1 1'', ''Ks 1 1 1''] True = Inr [mat]"
    by (elim exE)
  note t2 = lines_before_first_record[where py_float = ex_float and ld = ex_loader
      and srgb = "\<lambda>t. t" and path = "''dir''" and lines = "[''Kd 2'', ''newmtl a'', ''Kd 1 1 1'', ''Ks 1 1 1'']" and clear = True]
  note c = t2[THEN conjunct2, THEN conjunct2, THEN conjunct2, THEN conjunct2, THEN conjunct1,
              THEN spec, THEN mp, OF l]
  have d1: "''NEWMTL a'' = [] @ unsplit ''NEWMTL'' [(CHR '' '', 0, ''a'')] @ []" by simp
  have d2: "\<forall>ch\<in>set ([] @ []). white ch" by simp
  have d3: "fields_ok ''NEWMTL'' [(CHR '' '', 0, ''a'')]" by (simp add: separator_def)
  have d4: "''NEWMTL'' \<noteq> []" "\<not> white (hd ''NEWMTL'')"
    "\<not> white (last (unsplit ''NEWMTL'' [(CHR '' '', 0, ''a'')]))" by (simp_all add: white_def)
  have d: "''NEWMTL a'' = [] @ unsplit ''NEWMTL'' [(CHR '' '', 0, ''a'')] @ []
        \<and> (\<forall>ch\<in>set ([] @ []). white ch) \<and> fields_ok ''NEWMTL'' [(CHR '' '', 0, ''a'')]
        \<and> ''NEWMTL'' \<noteq> [] \<and> \<not> white (hd ''NEWMTL'')
        \<and> \<not> white (last (unsplit ''NEWMTL'' [(CHR '' '', 0, ''a'')]))"
    using d1 d2 d3 d4 by (intro conjI)
  note e = t[THEN conjunct2, THEN conjunct2, THEN conjunct2, THEN conjunct2, THEN conjunct2,
             THEN conjunct1, THEN mp, OF d]
  have sl: "spec_lower ''NEWMTL'' = ''newmtl''" by (simp add: lower_eval)
  have e2: "is_newmtl ''NEWMTL a''"
    using e[THEN conjunct2] unfolding sl by (simp add: exI[of _ "[]"])
  have w: "white (CHR 0x0A)" by (simp add: white_def)
  then have wl: "\<forall>ch\<in>set [CHR 0x0A]. white ch" by simp
  note t3 = lines_before_first_record[where line = "[CHR 0x0A]"]
  note f = t3[THEN conjunct2, THEN conjunct2, THEN conjunct2, THEN conjunct2, THEN conjunct2,
              THEN conjunct2, THEN mp, OF wl]
  show ?thesis
    apply (rule exI[of _ mat])
    apply (intro conjI)
    apply (rule n j a p b1 i b3 g l c d1 d3 e[THEN conjunct1] sl e2 w f[THEN conjunct1]
                f[THEN conjunct2])+
    done
qed

end
